theory Spec2Isabelle
  imports Main "HOL-Library.Word"
begin

unbundle bit_operations_syntax

section \<open>Token engine (utils.py)\<close>

text \<open>
  Python \<open>str\<close> and \<open>bytes\<close> values are both modelled as \<open>string\<close>: a text is
  represented by its UTF-8 bytes, so \<open>s.encode()\<close> is the identity.

  \<open>hashlib.sha256\<close> is a library function. It is a parameter \<open>H\<close> of everything that
  hashes; its result type is the 256-bit digest, and \<open>hexdigest\<close> renders a digest as
  64 lower-case hexadecimal characters, most significant nibble first.
\<close>

type_synonym digest = "256 word"
type_synonym sha256 = "string \<Rightarrow> digest"

definition hex_char :: "nat \<Rightarrow> char" where
  "hex_char n = ''0123456789abcdef'' ! n"

definition nibble :: "digest \<Rightarrow> nat \<Rightarrow> nat" where
  "nibble w i = unat (drop_bit (4 * (63 - i)) w AND 15)"

definition hexdigest :: "digest \<Rightarrow> string" where
  "hexdigest w = map (\<lambda>i. hex_char (nibble w i)) [0..<64]"

text \<open>\<open>message = f"{session_id}:{poll_id}".encode()\<close>\<close>

definition voter_message :: "string \<Rightarrow> string \<Rightarrow> string" where
  "voter_message session_id poll_id = session_id @ '':'' @ poll_id"

definition generate_voter_token :: "sha256 \<Rightarrow> string \<Rightarrow> string \<Rightarrow> string" where
  "generate_voter_token H session_id poll_id = hexdigest (H (voter_message session_id poll_id))"

definition hash_voter_token :: "sha256 \<Rightarrow> string \<Rightarrow> string" where
  "hash_voter_token H token = hexdigest (H token)"

definition hash_creator_token :: "sha256 \<Rightarrow> string \<Rightarrow> string" where
  "hash_creator_token H token = hexdigest (H token)"

text \<open>
  \<open>is_valid_poll_id\<close>: \<open>re.match(r'^[A-Za-z0-9_-]{8,32}$', poll_id)\<close>, after the test
  \<open>if not poll_id: return False\<close>. In Python's \<open>re\<close>, without the MULTILINE flag,
  \<open>$\<close> matches at the end of the string and also just before a newline that is the
  last character of the string. The characters of the class are no newlines, so the
  greedy repetition must take the whole run of class characters at the start of the
  string, and what follows the run must be nothing or one final newline.
\<close>

definition char_between :: "char \<Rightarrow> char \<Rightarrow> char \<Rightarrow> bool" where
  "char_between lo hi c \<longleftrightarrow> (of_char lo :: nat) \<le> of_char c \<and> (of_char c :: nat) \<le> of_char hi"

definition poll_id_char :: "char \<Rightarrow> bool" where
  "poll_id_char c \<longleftrightarrow>
     char_between CHR ''A'' CHR ''Z'' c \<or> char_between CHR ''a'' CHR ''z'' c \<or>
     char_between CHR ''0'' CHR ''9'' c \<or> c = CHR ''_'' \<or> c = CHR ''-''"

definition poll_id_regex_match :: "string \<Rightarrow> bool" where
  "poll_id_regex_match s =
     (let n = length (takeWhile poll_id_char s)
      in 8 \<le> n \<and> n \<le> 32 \<and> (drop n s = [] \<or> drop n s = [CHR 0x0A]))"

definition is_valid_poll_id :: "string \<Rightarrow> bool" where
  "is_valid_poll_id poll_id = (if poll_id = [] then False else poll_id_regex_match poll_id)"

text \<open>
  The format in the words of the specification: 8 to 32 characters, all of them from
  \<open>[A-Za-z0-9_-]\<close>. It is what \<open>is_valid_poll_id\<close> is compared with.
\<close>

definition spec_poll_id_format :: "string \<Rightarrow> bool" where
  "spec_poll_id_format s \<longleftrightarrow> 8 \<le> length s \<and> length s \<le> 32 \<and> list_all poll_id_char s"

section \<open>Poll aggregate (models.py)\<close>

text \<open>
  The three tables, each a list of rows. Only the columns that the modelled methods read
  or write are fields. A \<open>DateTime\<close> is a point of the UTC time line, an \<open>int\<close>
  (\<open>is_expired\<close> first attaches UTC to a naive \<open>expires_at\<close>); an \<open>Integer\<close> column
  is a Python \<open>int\<close>. The fields are prefixed where two models use the same column name
  (\<open>Poll.id\<close> is \<open>p_id\<close>, \<open>PollOption.id\<close> is \<open>o_id\<close>, \<open>PollOption.poll_id\<close> is
  \<open>o_poll_id\<close>, and so on for \<open>Vote\<close>).
\<close>

record poll =
  p_id :: string
  question :: string
  question_encrypted :: "string option"
  expires_at :: "int option"
  allow_vote_change :: bool
  is_closed :: bool
  is_encrypted :: bool
  total_votes :: int

record poll_option =
  o_id :: int
  o_poll_id :: string
  option_text :: string
  vote_count :: int
  display_order :: int

record vote_row =
  v_id :: int
  v_poll_id :: string
  voter_token_hash :: string
  v_option_id :: int
  voted_at :: int

record database =
  polls :: "poll list"
  options :: "poll_option list"
  votes :: "vote_row list"

text \<open>\<open>Poll.is_expired\<close> and \<open>Poll.is_active\<close>; \<open>now\<close> is \<open>datetime.now(timezone.utc)\<close>.\<close>

definition is_expired :: "poll \<Rightarrow> int \<Rightarrow> bool" where
  "is_expired p now = (case expires_at p of None \<Rightarrow> False | Some expires \<Rightarrow> now > expires)"

definition is_active :: "poll \<Rightarrow> int \<Rightarrow> bool" where
  "is_active p now \<longleftrightarrow> \<not> is_closed p \<and> \<not> is_expired p now"

text \<open>
  \<open>UniqueConstraint('poll_id', 'voter_token_hash')\<close> of \<open>Vote\<close>: the key of a row, and
  the table property the constraint stands for.
\<close>

definition vote_key :: "vote_row \<Rightarrow> string \<times> string" where
  "vote_key v = (v_poll_id v, voter_token_hash v)"

definition unique_vote_per_poll :: "database \<Rightarrow> bool" where
  "unique_vote_per_poll db = distinct (map vote_key (votes db))"

section \<open>Voting protocol (services/poll\_service.py)\<close>

text \<open>
  An ORM object is a row of its table: \<open>.first()\<close> and \<open>.get()\<close> return the first row
  that satisfies the filter, and an assignment to an attribute of the object changes
  that row (\<open>update_first\<close>) when the session commits.
\<close>

fun update_first :: "('a \<Rightarrow> bool) \<Rightarrow> ('a \<Rightarrow> 'a) \<Rightarrow> 'a list \<Rightarrow> 'a list" where
  "update_first P f [] = []"
| "update_first P f (x # xs) = (if P x then f x # xs else x # update_first P f xs)"

definition get_poll :: "database \<Rightarrow> string \<Rightarrow> poll option" where
  "get_poll db poll_id = find (\<lambda>p. p_id p = poll_id) (polls db)"

definition get_option :: "database \<Rightarrow> int \<Rightarrow> poll_option option" where
  "get_option db option_id = find (\<lambda>x. o_id x = option_id) (options db)"

definition option_of_poll :: "int \<Rightarrow> string \<Rightarrow> poll_option \<Rightarrow> bool" where
  "option_of_poll option_id poll_id x \<longleftrightarrow> o_id x = option_id \<and> o_poll_id x = poll_id"

definition vote_of :: "string \<Rightarrow> string \<Rightarrow> vote_row \<Rightarrow> bool" where
  "vote_of poll_id voter_hash v \<longleftrightarrow> v_poll_id v = poll_id \<and> voter_token_hash v = voter_hash"

text \<open>
  \<open>PollOption.to_dict\<close> without its \<open>percentage\<close> entry (a rounded float), and
  \<open>[opt.to_dict() for opt in poll.options]\<close>: the relationship is ordered by
  \<open>display_order\<close>.
\<close>

definition to_dict :: "poll_option \<Rightarrow> int \<times> string \<times> int \<times> int" where
  "to_dict x = (o_id x, option_text x, vote_count x, display_order x)"

definition poll_results :: "database \<Rightarrow> string \<Rightarrow> (int \<times> string \<times> int \<times> int) list" where
  "poll_results db poll_id =
     map to_dict (sort_key display_order (filter (\<lambda>x. o_poll_id x = poll_id) (options db)))"

record vote_data =
  voted_option_id :: int
  data_total_votes :: int
  results :: "(int \<times> string \<times> int \<times> int) list"

text \<open>
  What a call does: it returns a value or raises. \<open>IntegrityError\<close> is the commit that
  the uniqueness constraint refuses; \<open>vote\<close> rolls back and re-raises it.
\<close>

datatype exn = IntegrityError | DecryptionFailed | SaltRequired | AttributeError

datatype 'a outcome = Returned 'a | Raised exn

type_synonym vote_return = "bool \<times> string \<times> vote_data option"

definition next_vote_id :: "database \<Rightarrow> int" where
  "next_vote_id db = fold max (map v_id (votes db)) 0 + 1"

definition vote ::
  "sha256 \<Rightarrow> int \<Rightarrow> database \<Rightarrow> poll \<Rightarrow> int \<Rightarrow> string \<Rightarrow> vote_return outcome \<times> database" where
  "vote H now db poll option_id session_id =
    (if \<not> is_active poll now then (Returned (False, ''Poll is no longer active'', None), db)
     else case find (option_of_poll option_id (p_id poll)) (options db) of
       None \<Rightarrow> (Returned (False, ''Invalid option'', None), db)
     | Some opt \<Rightarrow>
        let voter_token = generate_voter_token H session_id (p_id poll);
            voter_hash = hash_voter_token H voter_token
        in case find (vote_of (p_id poll) voter_hash) (votes db) of
          Some existing_vote \<Rightarrow>
            if allow_vote_change poll then
              let options1 =
                    (case get_option db (v_option_id existing_vote) of
                       None \<Rightarrow> options db
                     | Some old_option \<Rightarrow>
                         update_first (\<lambda>x. o_id x = v_option_id existing_vote)
                           (\<lambda>x. x\<lparr>vote_count := max 0 (vote_count x - 1)\<rparr>) (options db));
                  votes1 = update_first (vote_of (p_id poll) voter_hash)
                             (\<lambda>v. v\<lparr>v_option_id := option_id\<rparr>) (votes db);
                  options2 = update_first (option_of_poll option_id (p_id poll))
                               (\<lambda>x. x\<lparr>vote_count := vote_count x + 1\<rparr>) options1;
                  db' = db\<lparr>options := options2, votes := votes1\<rparr>
              in (Returned (True, ''Vote changed successfully'',
                    Some \<lparr>voted_option_id = option_id, data_total_votes = total_votes poll,
                          results = poll_results db' (p_id poll)\<rparr>), db')
            else (Returned (False, ''You have already voted'', None), db)
        | None \<Rightarrow>
            let new_vote = \<lparr>v_id = next_vote_id db, v_poll_id = p_id poll,
                            voter_token_hash = voter_hash, v_option_id = option_id,
                            voted_at = now\<rparr>;
                options1 = update_first (option_of_poll option_id (p_id poll))
                             (\<lambda>x. x\<lparr>vote_count := vote_count x + 1\<rparr>) (options db);
                polls1 = update_first (\<lambda>p. p_id p = p_id poll)
                           (\<lambda>p. p\<lparr>total_votes := total_votes poll + 1\<rparr>) (polls db);
                db' = \<lparr>polls = polls1, options = options1, votes = votes db @ [new_vote]\<rparr>
            in if vote_key new_vote \<in> set (map vote_key (votes db))
               then (Raised IntegrityError, db)
               else (Returned (True, ''Vote recorded'',
                       Some \<lparr>voted_option_id = option_id, data_total_votes = total_votes poll + 1,
                             results = poll_results db' (p_id poll)\<rparr>), db'))"

text \<open>
  A vote request as the route \<open>/poll/<poll_id>/vote\<close> serves it: the poll is loaded by
  its identifier (\<open>PollService.get_poll\<close>, 404 when there is none) and handed to
  \<open>PollService.vote\<close>. \<open>cast_vote\<close> is the state after the request.
\<close>

record vote_request =
  req_now :: int
  req_poll_id :: string
  req_option_id :: int
  req_session_id :: string

definition cast_vote :: "sha256 \<Rightarrow> database \<Rightarrow> vote_request \<Rightarrow> database" where
  "cast_vote H db r =
     (case get_poll db (req_poll_id r) of
        None \<Rightarrow> db
      | Some poll \<Rightarrow> snd (vote H (req_now r) db poll (req_option_id r) (req_session_id r)))"

definition cast_votes :: "sha256 \<Rightarrow> database \<Rightarrow> vote_request list \<Rightarrow> database" where
  "cast_votes H db rs = foldl (cast_vote H) db rs"

section \<open>Encryption engine (encryption.py)\<close>

text \<open>
  \<open>base64.urlsafe_b64encode\<close>: groups of three bytes become four characters of the
  alphabet \<open>A-Z a-z 0-9 - _\<close>; a last group of one or two bytes is padded with \<open>=\<close>.
\<close>

definition b64_char :: "nat \<Rightarrow> char" where
  "b64_char n =
     (if n < 26 then char_of (65 + n) else if n < 52 then char_of (71 + n)
      else if n < 62 then char_of (n - 4) else if n = 62 then CHR ''-'' else CHR ''_'')"

fun b64encode :: "string \<Rightarrow> string" where
  "b64encode [] = []"
| "b64encode [a] =
     [b64_char (of_char a div 4), b64_char ((of_char a mod 4) * 16), CHR ''='', CHR ''='']"
| "b64encode [a, b] =
     [b64_char (of_char a div 4), b64_char ((of_char a mod 4) * 16 + of_char b div 16),
      b64_char ((of_char b mod 16) * 4), CHR ''='']"
| "b64encode (a # b # c # rest) =
     [b64_char (of_char a div 4), b64_char ((of_char a mod 4) * 16 + of_char b div 16),
      b64_char ((of_char b mod 16) * 4 + of_char c div 64), b64_char (of_char c mod 64)]
     @ b64encode rest"

definition urlsafe_b64encode :: "string \<Rightarrow> string" where
  "urlsafe_b64encode s = b64encode s"

text \<open>
  \<open>base64.urlsafe_b64decode\<close>: it translates \<open>-\<close> to \<open>+\<close> and \<open>_\<close> to \<open>/\<close> and calls
  \<open>binascii.a2b_base64\<close> without validation. So \<open>+\<close> and \<open>/\<close> are accepted beside
  \<open>-\<close> and \<open>_\<close> (\<open>b64_index\<close>), and the decoder (the loop of CPython 3.11, with its
  variables \<open>quad_pos\<close>, \<open>leftchar\<close> and \<open>pads\<close>) skips every character outside the
  alphabet, skips a \<open>=\<close> that does not complete the padding of a group, stops at the
  \<open>=\<close> that does, drops the low bits that the last character of a padded group has too
  many, and raises \<open>binascii.Error\<close> (\<open>None\<close>) when the input ends inside a group.
\<close>

definition b64_index :: "char \<Rightarrow> nat option" where
  "b64_index c =
     (if char_between CHR ''A'' CHR ''Z'' c then Some (of_char c - 65)
      else if char_between CHR ''a'' CHR ''z'' c then Some (of_char c - 71)
      else if char_between CHR ''0'' CHR ''9'' c then Some (of_char c + 4)
      else if c = CHR ''+'' \<or> c = CHR ''-'' then Some 62
      else if c = CHR ''/'' \<or> c = CHR ''_'' then Some 63
      else None)"

fun a2b_base64 :: "nat \<Rightarrow> nat \<Rightarrow> nat \<Rightarrow> string \<Rightarrow> string option" where
  "a2b_base64 quad_pos leftchar pads [] = (if quad_pos = 0 then Some [] else None)"
| "a2b_base64 quad_pos leftchar pads (c # cs) =
     (if c = CHR ''='' then
        (if quad_pos \<ge> 2 \<and> quad_pos + (pads + 1) \<ge> 4 then Some []
         else a2b_base64 quad_pos leftchar (if quad_pos \<ge> 2 then pads + 1 else pads) cs)
      else case b64_index c of
        None \<Rightarrow> a2b_base64 quad_pos leftchar pads cs
      | Some v \<Rightarrow>
          (if quad_pos = 0 then a2b_base64 1 v 0 cs
           else if quad_pos = 1 then
             map_option ((#) (char_of (leftchar * 4 + v div 16))) (a2b_base64 2 (v mod 16) 0 cs)
           else if quad_pos = 2 then
             map_option ((#) (char_of (leftchar * 16 + v div 4))) (a2b_base64 3 (v mod 4) 0 cs)
           else map_option ((#) (char_of (leftchar * 64 + v))) (a2b_base64 0 0 0 cs)))"

definition urlsafe_b64decode :: "string \<Rightarrow> string option" where
  "urlsafe_b64decode s = a2b_base64 0 0 0 s"

text \<open>
  \<open>bytes.decode('utf-8')\<close> succeeds on the well-formed byte sequences of UTF-8 (no
  overlong forms, no surrogates, nothing above U+10FFFF) and raises on the others.
\<close>

definition utf8_cont :: "char \<Rightarrow> bool" where
  "utf8_cont c \<longleftrightarrow> char_between (CHR 0x80) (CHR 0xBF) c"

fun utf8_valid :: "string \<Rightarrow> bool" where
  "utf8_valid [] = True"
| "utf8_valid (a # rest) =
     (if (of_char a :: nat) < 0x80 then utf8_valid rest
      else if char_between (CHR 0xC2) (CHR 0xDF) a then
        (case rest of b # r \<Rightarrow> utf8_cont b \<and> utf8_valid r | _ \<Rightarrow> False)
      else if char_between (CHR 0xE0) (CHR 0xEF) a then
        (case rest of
           b # c # r \<Rightarrow>
             char_between (if a = CHR 0xE0 then CHR 0xA0 else CHR 0x80)
               (if a = CHR 0xED then CHR 0x9F else CHR 0xBF) b \<and> utf8_cont c \<and> utf8_valid r
         | _ \<Rightarrow> False)
      else if char_between (CHR 0xF0) (CHR 0xF4) a then
        (case rest of
           b # c # d # r \<Rightarrow>
             char_between (if a = CHR 0xF0 then CHR 0x90 else CHR 0x80)
               (if a = CHR 0xF4 then CHR 0x8F else CHR 0xBF) b \<and> utf8_cont c \<and> utf8_cont d \<and>
             utf8_valid r
         | _ \<Rightarrow> False)
      else False)"

text \<open>
  The primitives of the \<open>cryptography\<close> library are parameters: \<open>PBKDF2HMAC(SHA256, 32
  bytes, salt, 100000 iterations).derive\<close> as a function of salt and password, and
  \<open>AESGCM(key).encrypt\<close> and \<open>.decrypt\<close> (no associated data) as functions of key,
  nonce and data; \<open>None\<close> is the exception of a failed authentication or of a nonce or
  ciphertext of the wrong size.
\<close>

record crypto =
  pbkdf2 :: "string \<Rightarrow> string \<Rightarrow> string"
  aesgcm_encrypt :: "string \<Rightarrow> string \<Rightarrow> string \<Rightarrow> string"
  aesgcm_decrypt :: "string \<Rightarrow> string \<Rightarrow> string \<Rightarrow> string option"

text \<open>
  \<open>AES256Encryption.__init__\<close>: the salt is the argument, or else the environment
  variable \<open>POLLIVU_SALT\<close>, or else \<open>ValueError\<close> (\<open>SaltRequired\<close>); then the key is
  derived, and \<open>secret_key.encode()\<close> of \<open>None\<close> is an \<open>AttributeError\<close>. An absent or
  empty value is falsy.
\<close>

record engine =
  eng_salt :: string
  eng_key :: string

definition truthy :: "string option \<Rightarrow> bool" where
  "truthy v = (case v of None \<Rightarrow> False | Some s \<Rightarrow> s \<noteq> [])"

definition AES256Encryption ::
  "crypto \<Rightarrow> string option \<Rightarrow> string option \<Rightarrow> string option \<Rightarrow> engine outcome" where
  "AES256Encryption C env_salt secret_key salt =
     (if \<not> truthy salt \<and> \<not> truthy env_salt then Raised SaltRequired
      else let s = (if truthy salt then the salt else the env_salt)
           in case secret_key of
                None \<Rightarrow> Raised AttributeError
              | Some k \<Rightarrow> Returned \<lparr>eng_salt = s, eng_key = pbkdf2 C s k\<rparr>)"

text \<open>
  \<open>encrypt\<close>; \<open>nonce\<close> is what \<open>os.urandom(NONCE_SIZE)\<close> returned, twelve bytes.
  \<open>decrypt\<close> turns every exception of its body into the \<open>ValueError\<close> "Decryption failed"
  (\<open>DecryptionFailed\<close>).
\<close>

definition NONCE_SIZE :: nat where
  "NONCE_SIZE = 12"

definition encrypt :: "crypto \<Rightarrow> engine \<Rightarrow> string \<Rightarrow> string \<Rightarrow> string" where
  "encrypt C eng nonce plaintext =
     (if plaintext = [] then []
      else urlsafe_b64encode (nonce @ aesgcm_encrypt C (eng_key eng) nonce plaintext))"

definition decrypt :: "crypto \<Rightarrow> engine \<Rightarrow> string \<Rightarrow> string outcome" where
  "decrypt C eng encrypted =
     (if encrypted = [] then Returned []
      else case urlsafe_b64decode encrypted of
        None \<Rightarrow> Raised DecryptionFailed
      | Some encrypted_data \<Rightarrow>
          (case aesgcm_decrypt C (eng_key eng) (take NONCE_SIZE encrypted_data)
                  (drop NONCE_SIZE encrypted_data) of
             None \<Rightarrow> Raised DecryptionFailed
           | Some plaintext \<Rightarrow>
               if utf8_valid plaintext then Returned plaintext else Raised DecryptionFailed))"

text \<open>
  \<open>EncryptedMixin.decrypt_field\<close> and \<open>Poll.get_question\<close> (models.py). The \<open>try\<close> of
  \<open>decrypt_field\<close> holds the construction of the engine and the decryption.
\<close>

definition decrypt_field :: "crypto \<Rightarrow> string option \<Rightarrow> string option \<Rightarrow> string option \<Rightarrow> string outcome" where
  "decrypt_field C env_salt encrypted secret_key =
     (if \<not> truthy encrypted then Returned []
      else case AES256Encryption C env_salt secret_key None of
        Raised e \<Rightarrow> Returned []
      | Returned eng \<Rightarrow>
          (case decrypt C eng (the encrypted) of
             Raised e \<Rightarrow> Returned []
           | Returned plaintext \<Rightarrow> Returned plaintext))"

definition get_question :: "crypto \<Rightarrow> string option \<Rightarrow> poll \<Rightarrow> string option \<Rightarrow> string" where
  "get_question C env_salt p secret_key =
     (if is_encrypted p \<and> truthy (question_encrypted p) \<and> truthy secret_key then
        (case decrypt_field C env_salt (question_encrypted p) secret_key of
           Returned v \<Rightarrow> v
         | Raised e \<Rightarrow> question p)
      else question p)"

text \<open>
  Decryption of a payload under a secret key fails: the engine for the key cannot be
  built, or its \<open>decrypt\<close> raises.
\<close>

definition decryption_fails :: "crypto \<Rightarrow> string option \<Rightarrow> string \<Rightarrow> string \<Rightarrow> bool" where
  "decryption_fails C env_salt secret_key payload =
     (case AES256Encryption C env_salt (Some secret_key) None of
        Raised e \<Rightarrow> True
      | Returned eng \<Rightarrow> (case decrypt C eng payload of Raised e \<Rightarrow> True | Returned v \<Rightarrow> False))"

section \<open>Counters and votes: the quantities of the invariants\<close>

text \<open>
  \<open>sum(option.vote_count for option in poll.options)\<close>, the number of \<open>Vote\<close> rows that
  reference an option, the hash under which \<open>vote\<close> looks a voter up, and the two counter
  updates of \<open>vote\<close> as functions of a row.
\<close>

definition options_total :: "database \<Rightarrow> string \<Rightarrow> int" where
  "options_total db pid = sum_list (map vote_count (filter (\<lambda>x. o_poll_id x = pid) (options db)))"

definition refs :: "vote_row list \<Rightarrow> int \<Rightarrow> int" where
  "refs vs i = int (length (filter (\<lambda>v. v_option_id v = i) vs))"

definition voter_hash_of :: "sha256 \<Rightarrow> string \<Rightarrow> poll \<Rightarrow> string" where
  "voter_hash_of H session_id poll = hash_voter_token H (generate_voter_token H session_id (p_id poll))"

definition inc_option :: "int \<Rightarrow> poll_option \<Rightarrow> poll_option" where
  "inc_option i x = (if o_id x = i then x\<lparr>vote_count := vote_count x + 1\<rparr> else x)"

definition dec_option :: "int \<Rightarrow> poll_option \<Rightarrow> poll_option" where
  "dec_option i x = (if o_id x = i then x\<lparr>vote_count := max 0 (vote_count x - 1)\<rparr> else x)"

text \<open>
  The invariant behind the counters of the poll \<open>pid\<close>: option identifiers are primary
  keys; a vote belongs to the poll exactly when the option it references does; an option
  of the poll counts at least the votes that reference it; and the total of the poll, as
  \<open>get_poll\<close> loads it, is the sum of the counters of its options.
\<close>

definition counters_consistent :: "string \<Rightarrow> database \<Rightarrow> bool" where
  "counters_consistent pid db \<longleftrightarrow>
     distinct (map o_id (options db)) \<and>
     (\<forall>v\<in>set (votes db). v_poll_id v = pid \<longleftrightarrow>
        (\<exists>x\<in>set (options db). o_id x = v_option_id v \<and> o_poll_id x = pid)) \<and>
     (\<forall>x\<in>set (options db). o_poll_id x = pid \<longrightarrow> refs (votes db) (o_id x) \<le> vote_count x) \<and>
     (\<forall>p. get_poll db pid = Some p \<longrightarrow> total_votes p = options_total db pid)"

section \<open>Example data\<close>

text \<open>
  A stand-in for SHA-256 that the kernel evaluates quickly, a poll with two options and no
  votes, and three vote requests: two first votes and a vote change.
\<close>

definition example_sha256 :: sha256 where
  "example_sha256 m = of_nat (sum_list (map of_char m))"

definition example_poll :: poll where
  "example_poll = \<lparr>p_id = ''pollAAAA'', question = ''Q'', question_encrypted = None,
     expires_at = Some 100, allow_vote_change = True, is_closed = False, is_encrypted = False,
     total_votes = 0\<rparr>"

definition example_db :: database where
  "example_db = \<lparr>polls = [example_poll],
     options = [\<lparr>o_id = 1, o_poll_id = ''pollAAAA'', option_text = ''A'', vote_count = 0, display_order = 0\<rparr>,
                \<lparr>o_id = 2, o_poll_id = ''pollAAAA'', option_text = ''B'', vote_count = 0, display_order = 1\<rparr>],
     votes = []\<rparr>"

definition example_requests :: "vote_request list" where
  "example_requests =
     [\<lparr>req_now = 5, req_poll_id = ''pollAAAA'', req_option_id = 1, req_session_id = ''s1''\<rparr>,
      \<lparr>req_now = 6, req_poll_id = ''pollAAAA'', req_option_id = 1, req_session_id = ''s2''\<rparr>,
      \<lparr>req_now = 7, req_poll_id = ''pollAAAA'', req_option_id = 2, req_session_id = ''s1''\<rparr>]"


text \<open>The state after the first of these requests.\<close>

definition example_voted_db :: database where
  "example_voted_db = \<lparr>polls = [example_poll\<lparr>total_votes := 1\<rparr>],
     options = [\<lparr>o_id = 1, o_poll_id = ''pollAAAA'', option_text = ''A'', vote_count = 1, display_order = 0\<rparr>,
                \<lparr>o_id = 2, o_poll_id = ''pollAAAA'', option_text = ''B'', vote_count = 0, display_order = 1\<rparr>],
     votes = [\<lparr>v_id = 1, v_poll_id = ''pollAAAA'',
               voter_token_hash = hash_voter_token example_sha256
                 (generate_voter_token example_sha256 ''s1'' ''pollAAAA''),
               v_option_id = 1, voted_at = 5\<rparr>]\<rparr>"

text \<open>
  Stand-ins for the primitives of the \<open>cryptography\<close> library, for the examples: the
  derived key is salt and password, the ciphertext is the plaintext followed by a tag of
  sixteen equal bytes (the sum of the bytes of key, nonce and plaintext), and decryption
  checks the tag. An engine, a nonce, and a poll whose encrypted question is not a blob.
\<close>

definition example_tag :: "string \<Rightarrow> string \<Rightarrow> string \<Rightarrow> string" where
  "example_tag k n p = replicate 16 (char_of (sum_list (map of_char (k @ n @ p)) :: nat))"

definition example_crypto :: crypto where
  "example_crypto =
     \<lparr>pbkdf2 = (\<lambda>salt password. salt @ password),
      aesgcm_encrypt = (\<lambda>k n p. p @ example_tag k n p),
      aesgcm_decrypt = (\<lambda>k n c.
        if 16 \<le> length c \<and> drop (length c - 16) c = example_tag k n (take (length c - 16) c)
        then Some (take (length c - 16) c) else None)\<rparr>"

definition example_engine :: engine where
  "example_engine = \<lparr>eng_salt = ''salt'', eng_key = ''saltkey''\<rparr>"

definition example_nonce :: string where
  "example_nonce = replicate 12 (CHR 0x00)"

definition example_encrypted_poll :: poll where
  "example_encrypted_poll = \<lparr>p_id = ''pollAAAA'', question = ''Q'', question_encrypted = Some ''A'',
     expires_at = None, allow_vote_change = False, is_closed = False, is_encrypted = True,
     total_votes = 0\<rparr>"

(*LEMMAS*)

section \<open>Lists of rows\<close>

lemma update_first_none: "\<forall>x\<in>set xs. \<not> P x \<Longrightarrow> update_first P f xs = xs"
  by (induction xs) auto

lemma update_first_split:
  "\<forall>y\<in>set ys. \<not> P y \<Longrightarrow> P x \<Longrightarrow> update_first P f (ys @ x # zs) = ys @ f x # zs"
  by (induction ys) auto

lemma find_split:
  "find P xs = Some x \<Longrightarrow> \<exists>ys zs. xs = ys @ x # zs \<and> P x \<and> (\<forall>y\<in>set ys. \<not> P y)"
proof (induction xs)
  case Nil
  then show ?case by simp
next
  case (Cons a xs)
  show ?case
  proof (cases "P a")
    case True
    with Cons.prems have "a = x" by simp
    with True have "a # xs = [] @ x # xs \<and> P x \<and> (\<forall>y\<in>set []. \<not> P y)" by simp
    then show ?thesis by blast
  next
    case False
    with Cons.prems have "find P xs = Some x" by simp
    from Cons.IH [OF this] obtain ys zs where "xs = ys @ x # zs" "P x" "\<forall>y\<in>set ys. \<not> P y"
      by blast
    with False have "a # xs = (a # ys) @ x # zs \<and> P x \<and> (\<forall>y\<in>set (a # ys). \<not> P y)" by simp
    then show ?thesis by blast
  qed
qed

lemma update_first_map_key:
  "(\<And>x. key (f x) = key x) \<Longrightarrow> map key (update_first P f xs) = map key xs"
  by (induction xs) auto

lemma update_first_by_id:
  "distinct (map key xs) \<Longrightarrow>
   update_first (\<lambda>x. key x = k) f xs = map (\<lambda>x. if key x = k then f x else x) xs"
proof (induction xs)
  case Nil
  then show ?case by simp
next
  case (Cons a xs)
  show ?case
  proof (cases "key a = k")
    case True
    with Cons.prems have "\<forall>x\<in>set xs. key x \<noteq> k" by (auto simp: image_iff)
    then have "map (\<lambda>x. if key x = k then f x else x) xs = xs" by (simp add: map_idI)
    with True show ?thesis by simp
  next
    case False
    with Cons show ?thesis by simp
  qed
qed

lemma update_first_option_of_poll:
  assumes "distinct (map o_id xs)" and "find (option_of_poll oid pid) xs = Some opt"
  shows "update_first (option_of_poll oid pid) f xs = map (\<lambda>x. if o_id x = oid then f x else x) xs"
proof -
  from find_split [OF assms(2)] obtain ys zs where
    xs: "xs = ys @ opt # zs" and opt: "option_of_poll oid pid opt"
    and ys: "\<forall>y\<in>set ys. \<not> option_of_poll oid pid y" by blast
  from opt have id: "o_id opt = oid" by (simp add: option_of_poll_def)
  from assms(1) xs id have "\<forall>y\<in>set ys. o_id y \<noteq> oid" "\<forall>y\<in>set zs. o_id y \<noteq> oid" by (auto simp: image_iff)
  then have "map (\<lambda>x. if o_id x = oid then f x else x) ys = ys"
    "map (\<lambda>x. if o_id x = oid then f x else x) zs = zs" by (simp_all add: map_idI)
  with xs id update_first_split [OF ys opt, of f zs] show ?thesis by simp
qed

lemma find_map_preserving:
  "(\<And>x. P (g x) = P x) \<Longrightarrow> find P (map g xs) = map_option g (find P xs)"
  by (induction xs) auto

lemma options_after_old:
  assumes "distinct (map o_id xs)"
  shows "(case find (\<lambda>x. o_id x = old) xs of None \<Rightarrow> xs
          | Some old_option \<Rightarrow> update_first (\<lambda>x. o_id x = old) f xs)
         = map (\<lambda>x. if o_id x = old then f x else x) xs"
proof (cases "find (\<lambda>x. o_id x = old) xs")
  case None
  then have "\<forall>x\<in>set xs. o_id x \<noteq> old" by (auto simp: find_None_iff)
  then have "map (\<lambda>x. if o_id x = old then f x else x) xs = xs" by (simp add: map_idI)
  with None show ?thesis by simp
next
  case (Some a)
  with update_first_by_id [OF assms, of old f] show ?thesis by simp
qed

lemma find_update_first_same:
  "(\<And>x. P (f x) = P x) \<Longrightarrow> find P (update_first P f xs) = map_option f (find P xs)"
  by (induction xs) auto

lemma find_update_first_other:
  "(\<And>x. P x \<Longrightarrow> \<not> Q x \<and> \<not> Q (f x)) \<Longrightarrow> find Q (update_first P f xs) = find Q xs"
  by (induction xs) auto

lemma find_None_vote_key:
  "find (vote_of pid vh) vs = None \<Longrightarrow> (pid, vh) \<notin> set (map vote_key vs)"
  by (auto simp: find_None_iff vote_of_def vote_key_def)

lemma vote_state_cases:
  fixes H now db poll oid sid
  defines "vh \<equiv> voter_hash_of H sid poll"
  defines "db2 \<equiv> snd (vote H now db poll oid sid)"
  obtains (same) msg where "vote H now db poll oid sid = (Returned (False, msg, None), db)"
  | (new) opt where "is_active poll now" "find (option_of_poll oid (p_id poll)) (options db) = Some opt"
      "find (vote_of (p_id poll) vh) (votes db) = None"
      "fst (vote H now db poll oid sid) = Returned (True, ''Vote recorded'',
          Some \<lparr>voted_option_id = oid, data_total_votes = total_votes poll + 1,
                results = poll_results db2 (p_id poll)\<rparr>)"
      "polls db2 = update_first (\<lambda>p. p_id p = p_id poll) (\<lambda>p. p\<lparr>total_votes := total_votes poll + 1\<rparr>) (polls db)"
      "options db2 = update_first (option_of_poll oid (p_id poll)) (\<lambda>x. x\<lparr>vote_count := vote_count x + 1\<rparr>) (options db)"
      "votes db2 = votes db @ [\<lparr>v_id = next_vote_id db, v_poll_id = p_id poll, voter_token_hash = vh,
                                v_option_id = oid, voted_at = now\<rparr>]"
  | (change) opt ev where "is_active poll now" "allow_vote_change poll"
      "find (option_of_poll oid (p_id poll)) (options db) = Some opt"
      "find (vote_of (p_id poll) vh) (votes db) = Some ev"
      "db2 = db\<lparr>options := update_first (option_of_poll oid (p_id poll)) (\<lambda>x. x\<lparr>vote_count := vote_count x + 1\<rparr>)
                 (case get_option db (v_option_id ev) of None \<Rightarrow> options db
                  | Some old_option \<Rightarrow> update_first (\<lambda>x. o_id x = v_option_id ev)
                      (\<lambda>x. x\<lparr>vote_count := max 0 (vote_count x - 1)\<rparr>) (options db)),
               votes := update_first (vote_of (p_id poll) vh) (\<lambda>v. v\<lparr>v_option_id := oid\<rparr>) (votes db)\<rparr>"
      "fst (vote H now db poll oid sid) = Returned (True, ''Vote changed successfully'',
          Some \<lparr>voted_option_id = oid, data_total_votes = total_votes poll,
                results = poll_results db2 (p_id poll)\<rparr>)"
proof (cases "is_active poll now")
  case False
  then have "vote H now db poll oid sid = (Returned (False, ''Poll is no longer active'', None), db)"
    by (simp add: vote_def)
  then show ?thesis by (rule same)
next
  case act: True
  show ?thesis
  proof (cases "find (option_of_poll oid (p_id poll)) (options db)")
    case None
    with act have "vote H now db poll oid sid = (Returned (False, ''Invalid option'', None), db)"
      by (simp add: vote_def)
    then show ?thesis by (rule same)
  next
    case (Some opt)
    show ?thesis
    proof (cases "find (vote_of (p_id poll) vh) (votes db)")
      case None
      note nk = find_None_vote_key [OF None]
      have k: "vote_key \<lparr>v_id = next_vote_id db, v_poll_id = p_id poll, voter_token_hash = vh,
                                v_option_id = oid, voted_at = now\<rparr> = (p_id poll, vh)"
        by (simp add: vote_key_def)
      show ?thesis
        by (rule new [OF act Some None])
          (use act Some None nk k in \<open>simp_all add: db2_def vote_def Let_def vh_def [symmetric] voter_hash_of_def [symmetric] del: set_map\<close>)
    next
      case ev: (Some ev)
      show ?thesis
      proof (cases "allow_vote_change poll")
        case True
        show ?thesis
          by (rule change [OF act True Some ev])
            (use act True Some ev in \<open>simp_all add: db2_def vote_def Let_def vh_def [symmetric] voter_hash_of_def [symmetric]\<close>)
      next
        case False
        with act Some ev have "vote H now db poll oid sid = (Returned (False, ''You have already voted'', None), db)"
          by (simp add: vote_def Let_def vh_def [symmetric] voter_hash_of_def [symmetric])
        then show ?thesis by (rule same)
      qed
    qed
  qed
qed

section \<open>The counters under a vote\<close>

lemma inc_option_simps [simp]:
  "o_id (inc_option i x) = o_id x" "o_poll_id (inc_option i x) = o_poll_id x"
  "vote_count (inc_option i x) = vote_count x + (if o_id x = i then 1 else 0)"
  by (simp_all add: inc_option_def)

lemma dec_option_simps [simp]:
  "o_id (dec_option i x) = o_id x" "o_poll_id (dec_option i x) = o_poll_id x"
  "vote_count (dec_option i x) = (if o_id x = i then max 0 (vote_count x - 1) else vote_count x)"
  by (simp_all add: dec_option_def)

lemma options_new:
  assumes "distinct (map o_id xs)" and "find (option_of_poll oid pid) xs = Some opt"
  shows "update_first (option_of_poll oid pid) (\<lambda>x. x\<lparr>vote_count := vote_count x + 1\<rparr>) xs
         = map (inc_option oid) xs"
  using update_first_option_of_poll [OF assms] by (simp add: inc_option_def [abs_def])

lemma options_change:
  assumes pk: "distinct (map o_id xs)" and opt: "find (option_of_poll oid pid) xs = Some opt"
  shows "update_first (option_of_poll oid pid) (\<lambda>x. x\<lparr>vote_count := vote_count x + 1\<rparr>)
           (case find (\<lambda>x. o_id x = old) xs of None \<Rightarrow> xs
            | Some old_option \<Rightarrow>
                update_first (\<lambda>x. o_id x = old) (\<lambda>x. x\<lparr>vote_count := max 0 (vote_count x - 1)\<rparr>) xs)
         = map (inc_option oid) (map (dec_option old) xs)"
proof -
  have pres: "\<And>x. option_of_poll oid pid (dec_option old x) = option_of_poll oid pid x"
    by (simp add: option_of_poll_def)
  have "find (option_of_poll oid pid) (map (dec_option old) xs) = Some (dec_option old opt)"
    using find_map_preserving [of "option_of_poll oid pid" "dec_option old" xs, OF pres] opt by simp
  moreover have "map o_id (map (dec_option old) xs) = map o_id xs" by simp
  with pk have "distinct (map o_id (map (dec_option old) xs))" by (simp only:)
  ultimately have "update_first (option_of_poll oid pid) (\<lambda>x. x\<lparr>vote_count := vote_count x + 1\<rparr>)
        (map (dec_option old) xs) = map (inc_option oid) (map (dec_option old) xs)"
    by (rule options_new [rotated])
  then show ?thesis
    unfolding options_after_old [OF pk] by (simp add: dec_option_def [abs_def])
qed

lemma total_map_at:
  assumes "distinct (map o_id xs)" and "x0 \<in> set xs"
    and "\<And>x. o_id x \<noteq> o_id x0 \<Longrightarrow> f x = x" and "\<And>x. o_poll_id (f x) = o_poll_id x"
  shows "sum_list (map vote_count (filter (\<lambda>x. o_poll_id x = pid) (map f xs)))
       = sum_list (map vote_count (filter (\<lambda>x. o_poll_id x = pid) xs))
         + (if o_poll_id x0 = pid then vote_count (f x0) - vote_count x0 else 0)"
  using assms(1,2)
proof (induction xs)
  case Nil
  then show ?case by simp
next
  case (Cons a xs)
  show ?case
  proof (cases "a = x0")
    case True
    with Cons.prems have "\<forall>x\<in>set xs. o_id x \<noteq> o_id x0" by (auto simp: image_iff)
    then have "map f xs = xs" using assms(3) by (simp add: map_idI)
    with True show ?thesis by (simp add: assms(4))
  next
    case False
    with Cons.prems have x0: "x0 \<in> set xs" and d: "distinct (map o_id xs)" by auto
    from Cons.prems x0 have "o_id a \<noteq> o_id x0" by (auto simp: image_iff)
    then have "f a = a" by (rule assms(3))
    with Cons.IH [OF d x0] show ?thesis by simp
  qed
qed

lemma total_map_none:
  assumes "\<forall>x\<in>set xs. o_id x \<noteq> i" and "\<And>x. o_id x \<noteq> i \<Longrightarrow> f x = x"
  shows "map f xs = xs"
  using assms by (simp add: map_idI)

lemma refs_reassign:
  "refs (vs1 @ ev\<lparr>v_option_id := j\<rparr> # vs2) i
   = refs (vs1 @ ev # vs2) i - (if v_option_id ev = i then 1 else 0) + (if j = i then 1 else 0)"
  by (simp add: refs_def)

lemma refs_append1: "refs (vs @ [v]) i = refs vs i + (if v_option_id v = i then 1 else 0)"
  by (simp add: refs_def)

lemma refs_pos: "ev \<in> set vs \<Longrightarrow> 1 \<le> refs vs (v_option_id ev)"
proof -
  assume "ev \<in> set vs"
  then have "ev \<in> set (filter (\<lambda>v. v_option_id v = v_option_id ev) vs)" by simp
  then have "0 < length (filter (\<lambda>v. v_option_id v = v_option_id ev) vs)"
    by (rule length_pos_if_in_set)
  then have "1 \<le> length (filter (\<lambda>v. v_option_id v = v_option_id ev) vs)"
    by (simp only: One_nat_def Suc_le_eq)
  then show ?thesis unfolding refs_def by linarith
qed

lemma find_Some_mem: "find P xs = Some x \<Longrightarrow> x \<in> set xs \<and> P x"
  by (auto simp: find_Some_iff)

lemma distinct_id_eq:
  "distinct (map key xs) \<Longrightarrow> x \<in> set xs \<Longrightarrow> y \<in> set xs \<Longrightarrow> key x = key y \<Longrightarrow> x = y"
  by (meson distinct_map inj_onD)

lemma ex_map_option:
  "(\<exists>x\<in>set (map (inc_option i) xs). o_id x = a \<and> o_poll_id x = b) \<longleftrightarrow> (\<exists>x\<in>set xs. o_id x = a \<and> o_poll_id x = b)"
  "(\<exists>x\<in>set (map (dec_option i) xs). o_id x = a \<and> o_poll_id x = b) \<longleftrightarrow> (\<exists>x\<in>set xs. o_id x = a \<and> o_poll_id x = b)"
  by auto

lemma inc_total:
  assumes pk: "distinct (map o_id xs)"
    and opt: "find (option_of_poll oid q) xs = Some opt"
  shows "sum_list (map vote_count (filter (\<lambda>x. o_poll_id x = pid) (map (inc_option oid) xs)))
     = sum_list (map vote_count (filter (\<lambda>x. o_poll_id x = pid) xs)) + (if q = pid then 1 else 0)"
proof -
  from find_Some_mem [OF opt] have om: "opt \<in> set xs"
    and oi: "o_id opt = oid" and op: "o_poll_id opt = q"
    by (simp_all add: option_of_poll_def)
  have "sum_list (map vote_count (filter (\<lambda>x. o_poll_id x = pid) (map (inc_option oid) xs)))
     = sum_list (map vote_count (filter (\<lambda>x. o_poll_id x = pid) xs))
       + (if o_poll_id opt = pid then vote_count (inc_option oid opt) - vote_count opt else 0)"
    by (rule total_map_at [OF pk om]) (simp_all add: inc_option_def oi)
  then show ?thesis by (simp add: oi op)
qed

lemma dec_total_at:
  assumes pk: "distinct (map o_id xs)" and xo: "xo \<in> set xs" "o_id xo = old"
  shows "sum_list (map vote_count (filter (\<lambda>x. o_poll_id x = pid) (map (dec_option old) xs)))
     = sum_list (map vote_count (filter (\<lambda>x. o_poll_id x = pid) xs))
       + (if o_poll_id xo = pid then max 0 (vote_count xo - 1) - vote_count xo else 0)"
proof -
  have "sum_list (map vote_count (filter (\<lambda>x. o_poll_id x = pid) (map (dec_option old) xs)))
     = sum_list (map vote_count (filter (\<lambda>x. o_poll_id x = pid) xs))
       + (if o_poll_id xo = pid then vote_count (dec_option old xo) - vote_count xo else 0)"
    by (rule total_map_at [OF pk xo(1)]) (simp_all add: dec_option_def xo(2))
  then show ?thesis by (simp add: xo(2))
qed

lemma dec_none: "\<forall>x\<in>set xs. o_id x \<noteq> old \<Longrightarrow> map (dec_option old) xs = xs"
  by (simp add: map_idI dec_option_def)

lemma new_K4_poll:
  assumes gp: "get_poll db q = Some poll"
    and p2: "polls db2 = update_first (\<lambda>p. p_id p = q) (\<lambda>p. p\<lparr>total_votes := t\<rparr>) (polls db)"
  shows "get_poll db2 pid = (if q = pid then Some (poll\<lparr>total_votes := t\<rparr>) else get_poll db pid)"
proof (cases "q = pid")
  case True
  have "find (\<lambda>p. p_id p = q) (update_first (\<lambda>p. p_id p = q) (\<lambda>p. p\<lparr>total_votes := t\<rparr>) (polls db))
          = map_option (\<lambda>p. p\<lparr>total_votes := t\<rparr>) (find (\<lambda>p. p_id p = q) (polls db))"
    by (rule find_update_first_same) simp
  with gp True show ?thesis by (simp add: get_poll_def p2)
next
  case False
  have "find (\<lambda>p. p_id p = pid) (update_first (\<lambda>p. p_id p = q) (\<lambda>p. p\<lparr>total_votes := t\<rparr>) (polls db))
      = find (\<lambda>p. p_id p = pid) (polls db)"
    using False by (intro find_update_first_other) simp
  with False show ?thesis by (simp add: get_poll_def p2)
qed

lemma change_K2:
  assumes pk: "distinct (map o_id xs)"
    and k2: "\<forall>v\<in>set (vs1 @ ev # vs2). v_poll_id v = pid \<longleftrightarrow>
        (\<exists>x\<in>set xs. o_id x = v_option_id v \<and> o_poll_id x = pid)"
    and opt: "find (option_of_poll oid q) xs = Some opt"
    and ev: "v_poll_id ev = q"
  shows "\<forall>v\<in>set (vs1 @ ev\<lparr>v_option_id := oid\<rparr> # vs2). v_poll_id v = pid \<longleftrightarrow>
        (\<exists>x\<in>set (map (inc_option oid) (map (dec_option old) xs)). o_id x = v_option_id v \<and> o_poll_id x = pid)"
proof
  from find_Some_mem [OF opt] have om: "opt \<in> set xs"
    and oi: "o_id opt = oid" and op: "o_poll_id opt = q"
    by (simp_all add: option_of_poll_def)
  have uniq: "\<And>x. x \<in> set xs \<Longrightarrow> o_id x = oid \<Longrightarrow> x = opt"
    by (rule distinct_id_eq [OF pk _ om]) (simp_all add: oi)
  fix v assume "v \<in> set (vs1 @ ev\<lparr>v_option_id := oid\<rparr> # vs2)"
  then consider "v \<in> set (vs1 @ ev # vs2)" "v \<noteq> ev\<lparr>v_option_id := oid\<rparr>" | "v = ev\<lparr>v_option_id := oid\<rparr>" by auto
  then show "v_poll_id v = pid \<longleftrightarrow>
        (\<exists>x\<in>set (map (inc_option oid) (map (dec_option old) xs)). o_id x = v_option_id v \<and> o_poll_id x = pid)"
  proof cases
    case 1
    with k2 show ?thesis unfolding ex_map_option by blast
  next
    case 2
    have "(\<exists>x\<in>set xs. o_id x = oid \<and> o_poll_id x = pid) \<longleftrightarrow> q = pid"
      using om oi op uniq by blast
    with 2 ev show ?thesis unfolding ex_map_option by simp
  qed
qed

lemma change_K3:
  assumes k3: "\<forall>x\<in>set xs. o_poll_id x = pid \<longrightarrow> refs (vs1 @ ev # vs2) (o_id x) \<le> vote_count x"
  shows "\<forall>y\<in>set (map (inc_option oid) (map (dec_option (v_option_id ev)) xs)). o_poll_id y = pid \<longrightarrow>
           refs (vs1 @ ev\<lparr>v_option_id := oid\<rparr> # vs2) (o_id y) \<le> vote_count y"
proof (intro ballI impI)
  fix y assume "y \<in> set (map (inc_option oid) (map (dec_option (v_option_id ev)) xs))"
    and py: "o_poll_id y = pid"
  then obtain x where x: "x \<in> set xs" and y: "y = inc_option oid (dec_option (v_option_id ev) x)"
    by auto
  from py y have "o_poll_id x = pid" by simp
  with k3 x have le: "refs (vs1 @ ev # vs2) (o_id x) \<le> vote_count x" by blast
  have pos: "1 \<le> refs (vs1 @ ev # vs2) (v_option_id ev)" by (rule refs_pos) simp
  have r: "refs (vs1 @ ev\<lparr>v_option_id := oid\<rparr> # vs2) (o_id x)
     = refs (vs1 @ ev # vs2) (o_id x) - (if v_option_id ev = o_id x then 1 else 0) + (if oid = o_id x then 1 else 0)"
    by (rule refs_reassign)
  have c: "vote_count y = (if o_id x = v_option_id ev then max 0 (vote_count x - 1) else vote_count x)
       + (if o_id x = oid then 1 else 0)"
    by (simp add: y)
  have i: "o_id y = o_id x" by (simp add: y)
  show "refs (vs1 @ ev\<lparr>v_option_id := oid\<rparr> # vs2) (o_id y) \<le> vote_count y"
  proof (cases "o_id x = v_option_id ev")
    case True
    with pos le have "1 \<le> vote_count x" by simp
    with True le show ?thesis unfolding i r c by (cases "o_id x = oid") auto
  next
    case False
    then have "v_option_id ev \<noteq> o_id x" by (rule not_sym)
    with False le show ?thesis unfolding i r c by (cases "o_id x = oid") auto
  qed
qed

lemma change_total:
  assumes pk: "distinct (map o_id xs)"
    and k2: "v_poll_id ev = pid \<longleftrightarrow> (\<exists>x\<in>set xs. o_id x = v_option_id ev \<and> o_poll_id x = pid)"
    and k3: "\<forall>x\<in>set xs. o_poll_id x = pid \<longrightarrow> refs (vs1 @ ev # vs2) (o_id x) \<le> vote_count x"
    and opt: "find (option_of_poll oid q) xs = Some opt"
    and ev: "v_poll_id ev = q"
  shows "sum_list (map vote_count (filter (\<lambda>x. o_poll_id x = pid)
            (map (inc_option oid) (map (dec_option (v_option_id ev)) xs))))
       = sum_list (map vote_count (filter (\<lambda>x. o_poll_id x = pid) xs))"
proof -
  let ?old = "v_option_id ev"
  let ?ys = "map (dec_option ?old) xs"
  let ?S = "\<lambda>zs. sum_list (map vote_count (filter (\<lambda>x. o_poll_id x = pid) zs))"
  have pres: "\<And>x. option_of_poll oid q (dec_option ?old x) = option_of_poll oid q x"
    by (simp add: option_of_poll_def)
  have fy: "find (option_of_poll oid q) ?ys = Some (dec_option ?old opt)"
    using find_map_preserving [of "option_of_poll oid q" "dec_option ?old" xs, OF pres] opt by simp
  have "map o_id ?ys = map o_id xs" by simp
  with pk have dy: "distinct (map o_id ?ys)" by (simp only:)
  have step2: "?S (map (inc_option oid) ?ys) = ?S ?ys + (if q = pid then 1 else 0)"
    by (rule inc_total [OF dy fy])
  have pos: "1 \<le> refs (vs1 @ ev # vs2) ?old" by (rule refs_pos) simp
  have step1: "?S ?ys = ?S xs - (if q = pid then 1 else 0)"
  proof (cases "\<exists>xo\<in>set xs. o_id xo = ?old")
    case False
    then have "?ys = xs" by (intro dec_none) blast
    moreover from False k2 ev have "q \<noteq> pid" by blast
    ultimately show ?thesis by simp
  next
    case True
    then obtain xo where xo: "xo \<in> set xs" "o_id xo = ?old" by blast
    have uniq: "\<And>x. x \<in> set xs \<Longrightarrow> o_id x = ?old \<Longrightarrow> x = xo"
      by (rule distinct_id_eq [OF pk _ xo(1)]) (simp_all add: xo(2))
    from k2 ev xo uniq have pq: "o_poll_id xo = pid \<longleftrightarrow> q = pid" by blast
    have d: "?S ?ys = ?S xs + (if o_poll_id xo = pid then max 0 (vote_count xo - 1) - vote_count xo else 0)"
      by (rule dec_total_at [OF pk xo])
    show ?thesis
    proof (cases "q = pid")
      case True
      with pq have p: "o_poll_id xo = pid" by simp
      with k3 xo have "refs (vs1 @ ev # vs2) ?old \<le> vote_count xo" by auto
      with pos have "1 \<le> vote_count xo" by simp
      with d p True show ?thesis by simp
    next
      case False
      with pq d show ?thesis by simp
    qed
  qed
  from step1 step2 show ?thesis by simp
qed

lemma new_K2:
  assumes pk: "distinct (map o_id xs)"
    and k2: "\<forall>v\<in>set vs. v_poll_id v = pid \<longleftrightarrow>
        (\<exists>x\<in>set xs. o_id x = v_option_id v \<and> o_poll_id x = pid)"
    and opt: "find (option_of_poll oid q) xs = Some opt"
    and nv: "v_poll_id nv = q" "v_option_id nv = oid"
  shows "\<forall>v\<in>set (vs @ [nv]). v_poll_id v = pid \<longleftrightarrow>
        (\<exists>x\<in>set (map (inc_option oid) xs). o_id x = v_option_id v \<and> o_poll_id x = pid)"
proof
  from find_Some_mem [OF opt] have om: "opt \<in> set xs"
    and oi: "o_id opt = oid" and op: "o_poll_id opt = q"
    by (simp_all add: option_of_poll_def)
  have uniq: "\<And>x. x \<in> set xs \<Longrightarrow> o_id x = oid \<Longrightarrow> x = opt"
    by (rule distinct_id_eq [OF pk _ om]) (simp_all add: oi)
  fix v assume "v \<in> set (vs @ [nv])"
  then consider "v \<in> set vs" | "v = nv" by auto
  then show "v_poll_id v = pid \<longleftrightarrow>
        (\<exists>x\<in>set (map (inc_option oid) xs). o_id x = v_option_id v \<and> o_poll_id x = pid)"
  proof cases
    case 1
    with k2 show ?thesis unfolding ex_map_option by blast
  next
    case 2
    have "(\<exists>x\<in>set xs. o_id x = oid \<and> o_poll_id x = pid) \<longleftrightarrow> q = pid"
      using om oi op uniq by blast
    with 2 nv show ?thesis unfolding ex_map_option by simp
  qed
qed

lemma new_K3:
  assumes k3: "\<forall>x\<in>set xs. o_poll_id x = pid \<longrightarrow> refs vs (o_id x) \<le> vote_count x"
    and nv: "v_option_id nv = oid"
  shows "\<forall>x\<in>set (map (inc_option oid) xs). o_poll_id x = pid \<longrightarrow>
           refs (vs @ [nv]) (o_id x) \<le> vote_count x"
proof (intro ballI impI)
  fix y assume "y \<in> set (map (inc_option oid) xs)" and py: "o_poll_id y = pid"
  then obtain x where x: "x \<in> set xs" and y: "y = inc_option oid x" by auto
  from py y have "o_poll_id x = pid" by simp
  with k3 x have le: "refs vs (o_id x) \<le> vote_count x" by blast
  show "refs (vs @ [nv]) (o_id y) \<le> vote_count y"
  proof (cases "o_id x = oid")
    case True
    with le show ?thesis by (simp add: y refs_append1 nv)
  next
    case False
    then have "oid \<noteq> o_id x" by (rule not_sym)
    with False le show ?thesis by (simp add: y refs_append1 nv)
  qed
qed

lemma consistent_new:
  assumes inv: "counters_consistent pid db" and gp: "get_poll db (p_id poll) = Some poll"
    and opt: "find (option_of_poll oid (p_id poll)) (options db) = Some opt"
    and p2: "polls db2 = update_first (\<lambda>p. p_id p = p_id poll) (\<lambda>p. p\<lparr>total_votes := total_votes poll + 1\<rparr>) (polls db)"
    and o2: "options db2 = update_first (option_of_poll oid (p_id poll)) (\<lambda>x. x\<lparr>vote_count := vote_count x + 1\<rparr>) (options db)"
    and v2: "votes db2 = votes db @ [nv]" and nv: "v_poll_id nv = p_id poll" "v_option_id nv = oid"
  shows "counters_consistent pid db2"
proof -
  from inv have pk: "distinct (map o_id (options db))"
    and k2: "\<forall>v\<in>set (votes db). v_poll_id v = pid \<longleftrightarrow>
        (\<exists>x\<in>set (options db). o_id x = v_option_id v \<and> o_poll_id x = pid)"
    and k3: "\<forall>x\<in>set (options db). o_poll_id x = pid \<longrightarrow> refs (votes db) (o_id x) \<le> vote_count x"
    and k4: "\<forall>p. get_poll db pid = Some p \<longrightarrow> total_votes p = options_total db pid"
    by (simp_all add: counters_consistent_def)
  have o2': "options db2 = map (inc_option oid) (options db)"
    unfolding o2 by (rule options_new [OF pk opt])
  have "map o_id (options db2) = map o_id (options db)" unfolding o2' by simp
  with pk have K1: "distinct (map o_id (options db2))" by (simp only:)
  have K2: "\<forall>v\<in>set (votes db2). v_poll_id v = pid \<longleftrightarrow>
        (\<exists>x\<in>set (options db2). o_id x = v_option_id v \<and> o_poll_id x = pid)"
    unfolding o2' v2 by (rule new_K2 [OF pk k2 opt nv])
  have K3: "\<forall>x\<in>set (options db2). o_poll_id x = pid \<longrightarrow> refs (votes db2) (o_id x) \<le> vote_count x"
    unfolding o2' v2 by (rule new_K3 [OF k3 nv(2)])
  have tot: "options_total db2 pid = options_total db pid + (if p_id poll = pid then 1 else 0)"
    unfolding options_total_def o2' by (rule inc_total [OF pk opt])
  have g2: "get_poll db2 pid = (if p_id poll = pid then Some (poll\<lparr>total_votes := total_votes poll + 1\<rparr>)
       else get_poll db pid)"
    by (rule new_K4_poll [OF gp p2])
  have K4: "\<forall>p. get_poll db2 pid = Some p \<longrightarrow> total_votes p = options_total db2 pid"
  proof (cases "p_id poll = pid")
    case True
    with gp k4 have "total_votes poll = options_total db pid" by simp
    with True show ?thesis by (simp add: g2 tot)
  next
    case False
    with k4 show ?thesis by (simp add: g2 tot)
  qed
  from K1 K2 K3 K4 show ?thesis unfolding counters_consistent_def by blast
qed

lemma consistent_change:
  assumes inv: "counters_consistent pid db"
    and opt: "find (option_of_poll oid (p_id poll)) (options db) = Some opt"
    and ev: "find (vote_of (p_id poll) vh) (votes db) = Some ev"
    and db2: "db2 = db\<lparr>options := update_first (option_of_poll oid (p_id poll)) (\<lambda>x. x\<lparr>vote_count := vote_count x + 1\<rparr>)
                 (case get_option db (v_option_id ev) of None \<Rightarrow> options db
                  | Some old_option \<Rightarrow> update_first (\<lambda>x. o_id x = v_option_id ev)
                      (\<lambda>x. x\<lparr>vote_count := max 0 (vote_count x - 1)\<rparr>) (options db)),
               votes := update_first (vote_of (p_id poll) vh) (\<lambda>v. v\<lparr>v_option_id := oid\<rparr>) (votes db)\<rparr>"
  shows "counters_consistent pid db2"
proof -
  from inv have pk: "distinct (map o_id (options db))"
    and k2: "\<forall>v\<in>set (votes db). v_poll_id v = pid \<longleftrightarrow>
        (\<exists>x\<in>set (options db). o_id x = v_option_id v \<and> o_poll_id x = pid)"
    and k3: "\<forall>x\<in>set (options db). o_poll_id x = pid \<longrightarrow> refs (votes db) (o_id x) \<le> vote_count x"
    and k4: "\<forall>p. get_poll db pid = Some p \<longrightarrow> total_votes p = options_total db pid"
    by (simp_all add: counters_consistent_def)
  from find_split [OF ev] obtain vs1 vs2 where
    vs: "votes db = vs1 @ ev # vs2" and pv: "vote_of (p_id poll) vh ev"
    and nv: "\<forall>y\<in>set vs1. \<not> vote_of (p_id poll) vh y" by blast
  from pv have evp: "v_poll_id ev = p_id poll" by (simp add: vote_of_def)
  have v2: "votes db2 = vs1 @ ev\<lparr>v_option_id := oid\<rparr> # vs2"
    unfolding db2 vs by (simp add: update_first_split [OF nv pv])
  have o2: "options db2 = map (inc_option oid) (map (dec_option (v_option_id ev)) (options db))"
    unfolding db2 get_option_def by (simp add: options_change [OF pk opt])
  have p2: "polls db2 = polls db" unfolding db2 by simp
  have "map o_id (options db2) = map o_id (options db)" unfolding o2 by simp
  with pk have K1: "distinct (map o_id (options db2))" by (simp only:)
  have K2: "\<forall>v\<in>set (votes db2). v_poll_id v = pid \<longleftrightarrow>
        (\<exists>x\<in>set (options db2). o_id x = v_option_id v \<and> o_poll_id x = pid)"
    unfolding o2 v2 by (rule change_K2 [OF pk k2 [unfolded vs] opt evp])
  have K3: "\<forall>x\<in>set (options db2). o_poll_id x = pid \<longrightarrow> refs (votes db2) (o_id x) \<le> vote_count x"
    unfolding o2 v2 by (rule change_K3 [OF k3 [unfolded vs]])
  from k2 vs have k2e: "v_poll_id ev = pid \<longleftrightarrow>
      (\<exists>x\<in>set (options db). o_id x = v_option_id ev \<and> o_poll_id x = pid)" by simp
  have tot: "options_total db2 pid = options_total db pid"
    unfolding options_total_def o2 by (rule change_total [OF pk k2e k3 [unfolded vs] opt evp])
  have "get_poll db2 pid = get_poll db pid" by (simp add: get_poll_def p2)
  with k4 tot have K4: "\<forall>p. get_poll db2 pid = Some p \<longrightarrow> total_votes p = options_total db2 pid"
    by simp
  from K1 K2 K3 K4 show ?thesis unfolding counters_consistent_def by blast
qed

lemma vote_consistent:
  assumes inv: "counters_consistent pid db" and gp: "get_poll db (p_id poll) = Some poll"
  shows "counters_consistent pid (snd (vote H now db poll oid sid))"
proof (cases rule: vote_state_cases [of H now db poll oid sid])
  case (same msg)
  with inv show ?thesis by simp
next
  case (new opt)
  show ?thesis
    by (rule consistent_new [OF inv gp new(2) new(5) new(6) new(7)]) simp_all
next
  case (change opt ev)
  show ?thesis
    by (rule consistent_change [OF inv change(3) change(4) change(5)])
qed

lemma get_poll_id: "get_poll db q = Some poll \<Longrightarrow> p_id poll = q"
  by (auto simp: get_poll_def dest: find_Some_mem)

lemma cast_vote_consistent:
  assumes "counters_consistent pid db"
  shows "counters_consistent pid (cast_vote H db r)"
proof (cases "get_poll db (req_poll_id r)")
  case None
  with assms show ?thesis by (simp add: cast_vote_def)
next
  case (Some poll)
  then have "get_poll db (p_id poll) = Some poll" by (simp add: get_poll_id)
  from vote_consistent [OF assms this] Some show ?thesis by (simp add: cast_vote_def)
qed

lemma cast_votes_consistent:
  "counters_consistent pid db \<Longrightarrow> counters_consistent pid (cast_votes H db rs)"
  unfolding cast_votes_def
  by (induction rs arbitrary: db) (simp_all add: cast_vote_consistent)

lemma vote_unique:
  assumes "unique_vote_per_poll db"
  shows "unique_vote_per_poll (snd (vote H now db poll oid sid))"
proof (cases rule: vote_state_cases [of H now db poll oid sid])
  case (same msg)
  with assms show ?thesis by simp
next
  case (new opt)
  from find_None_vote_key [OF new(3)] assms show ?thesis
    unfolding unique_vote_per_poll_def new(7) by (simp add: vote_key_def)
next
  case (change opt ev)
  have "map vote_key (update_first (vote_of (p_id poll) (voter_hash_of H sid poll))
          (\<lambda>v. v\<lparr>v_option_id := oid\<rparr>) (votes db)) = map vote_key (votes db)"
    by (rule update_first_map_key) (simp add: vote_key_def)
  with assms show ?thesis unfolding unique_vote_per_poll_def change(5) by simp
qed

lemma cast_vote_unique:
  "unique_vote_per_poll db \<Longrightarrow> unique_vote_per_poll (cast_vote H db r)"
  by (simp add: cast_vote_def vote_unique split: option.splits)

lemma cast_votes_unique:
  "unique_vote_per_poll db \<Longrightarrow> unique_vote_per_poll (cast_votes H db rs)"
  unfolding cast_votes_def
  by (induction rs arbitrary: db) (simp_all add: cast_vote_unique)

lemma vote_rows:
  fixes H now db poll oid sid
  defines "vh \<equiv> hash_voter_token H (generate_voter_token H sid (p_id poll))"
  shows "case find (vote_of (p_id poll) vh) (votes db) of
      None \<Rightarrow>
        (\<exists>msg. vote H now db poll oid sid = (Returned (False, msg, None), db)) \<or>
        (\<exists>d db2 v. vote H now db poll oid sid = (Returned (True, ''Vote recorded'', Some d), db2) \<and>
           votes db2 = votes db @ [v] \<and> vote_key v = (p_id poll, vh) \<and> v_option_id v = oid)
    | Some ev \<Rightarrow>
        (\<exists>msg. vote H now db poll oid sid = (Returned (False, msg, None), db)) \<or>
        (\<exists>d db2 vs1 vs2. vote H now db poll oid sid = (Returned (True, ''Vote changed successfully'', Some d), db2) \<and>
           votes db = vs1 @ ev # vs2 \<and> votes db2 = vs1 @ ev\<lparr>v_option_id := oid\<rparr> # vs2)"
proof (cases rule: vote_state_cases [of H now db poll oid sid])
  case (same msg)
  then show ?thesis by (simp split: option.splits)
next
  case (new opt)
  let ?v = "\<lparr>v_id = next_vote_id db, v_poll_id = p_id poll, voter_token_hash = vh,
             v_option_id = oid, voted_at = now\<rparr>"
  have eq: "vote H now db poll oid sid = (Returned (True, ''Vote recorded'',
          Some \<lparr>voted_option_id = oid, data_total_votes = total_votes poll + 1,
                results = poll_results (snd (vote H now db poll oid sid)) (p_id poll)\<rparr>),
          snd (vote H now db poll oid sid))"
    using new(4) by (simp add: prod_eq_iff)
  have v2: "votes (snd (vote H now db poll oid sid)) = votes db @ [?v]"
    using new(7) by (simp add: vh_def voter_hash_of_def)
  have "\<exists>d db2 v. vote H now db poll oid sid = (Returned (True, ''Vote recorded'', Some d), db2) \<and>
           votes db2 = votes db @ [v] \<and> vote_key v = (p_id poll, vh) \<and> v_option_id v = oid"
    by (intro exI conjI) (rule eq, rule v2, simp_all add: vote_key_def)
  with new(3) show ?thesis by (simp add: vh_def voter_hash_of_def)
next
  case (change opt ev)
  from find_split [OF change(4)] obtain vs1 vs2 where
    vs: "votes db = vs1 @ ev # vs2" and pv: "vote_of (p_id poll) (voter_hash_of H sid poll) ev"
    and nv: "\<forall>y\<in>set vs1. \<not> vote_of (p_id poll) (voter_hash_of H sid poll) y" by blast
  have v2: "votes (snd (vote H now db poll oid sid)) = vs1 @ ev\<lparr>v_option_id := oid\<rparr> # vs2"
    unfolding change(5) vs by (simp add: update_first_split [OF nv pv])
  have eq: "vote H now db poll oid sid = (Returned (True, ''Vote changed successfully'',
          Some \<lparr>voted_option_id = oid, data_total_votes = total_votes poll,
                results = poll_results (snd (vote H now db poll oid sid)) (p_id poll)\<rparr>),
          snd (vote H now db poll oid sid))"
    using change(6) by (simp add: prod_eq_iff)
  have "\<exists>d db2 vs1 vs2. vote H now db poll oid sid = (Returned (True, ''Vote changed successfully'', Some d), db2) \<and>
           votes db = vs1 @ ev # vs2 \<and> votes db2 = vs1 @ ev\<lparr>v_option_id := oid\<rparr> # vs2"
    by (intro exI conjI) (rule eq, rule vs, rule v2)
  with change(4) show ?thesis by (simp add: vh_def voter_hash_of_def)
qed

section \<open>Claims about the voting protocol\<close>

text \<open>
  C1. Starting from a votes table with at most one row for each pair of poll and voter
  hash, every state that a sequence of vote requests reaches has at most one row for each
  pair, and so has the state after one more call of \<open>vote\<close>. That call, for a pair with no
  row, either is rejected and changes nothing or appends exactly one row, for this pair
  and the chosen option; for a pair with a row, it either is rejected and changes nothing
  or replaces that row by itself with the new option, and no row is added.
\<close>

theorem one_vote_per_pair:
  assumes "unique_vote_per_poll db"
  shows "unique_vote_per_poll (cast_votes H db rs) \<and>
    unique_vote_per_poll (snd (vote H now (cast_votes H db rs) poll oid sid)) \<and>
    (case find (vote_of (p_id poll) (hash_voter_token H (generate_voter_token H sid (p_id poll))))
            (votes (cast_votes H db rs)) of
      None \<Rightarrow>
        (\<exists>msg. vote H now (cast_votes H db rs) poll oid sid = (Returned (False, msg, None), cast_votes H db rs)) \<or>
        (\<exists>d db2 v. vote H now (cast_votes H db rs) poll oid sid = (Returned (True, ''Vote recorded'', Some d), db2) \<and>
           votes db2 = votes (cast_votes H db rs) @ [v] \<and>
           vote_key v = (p_id poll, hash_voter_token H (generate_voter_token H sid (p_id poll))) \<and>
           v_option_id v = oid)
    | Some ev \<Rightarrow>
        (\<exists>msg. vote H now (cast_votes H db rs) poll oid sid = (Returned (False, msg, None), cast_votes H db rs)) \<or>
        (\<exists>d db2 vs1 vs2. vote H now (cast_votes H db rs) poll oid sid
             = (Returned (True, ''Vote changed successfully'', Some d), db2) \<and>
           votes (cast_votes H db rs) = vs1 @ ev # vs2 \<and> votes db2 = vs1 @ ev\<lparr>v_option_id := oid\<rparr> # vs2))"
  using cast_votes_unique [OF assms, of H rs] vote_unique [of "cast_votes H db rs" H now poll oid sid]
    vote_rows [where H = H and now = now and db = "cast_votes H db rs" and poll = poll and oid = oid and sid = sid]
  by simp

theorem one_vote_per_pair_witness:
  "unique_vote_per_poll example_db \<and>
   unique_vote_per_poll (cast_votes example_sha256 example_db example_requests) \<and>
   map v_option_id (votes (cast_votes example_sha256 example_db example_requests)) = [2, 1]"
proof -
  have u: "unique_vote_per_poll example_db"
    by (simp add: unique_vote_per_poll_def example_db_def)
  from one_vote_per_pair [OF u, of example_sha256 example_requests 8 example_poll 2 "''s2''"]
  have "unique_vote_per_poll (cast_votes example_sha256 example_db example_requests)"
    by (rule conjunct1)
  moreover have "map v_option_id (votes (cast_votes example_sha256 example_db example_requests)) = [2, 1]"
    by code_simp
  ultimately show ?thesis using u by simp
qed

lemma sum_list_zero:
  "\<forall>x\<in>set xs. P x \<longrightarrow> f x = (0::int) \<Longrightarrow> sum_list (map f (filter P xs)) = 0"
  by (induction xs) auto

lemma fresh_consistent:
  assumes pk: "distinct (map o_id (options db))"
    and poll: "get_poll db pid = Some p0" and t0: "total_votes p0 = 0"
    and zero: "\<forall>x\<in>set (options db). o_poll_id x = pid \<longrightarrow> vote_count x = 0"
    and fresh: "\<forall>v\<in>set (votes db). v_poll_id v \<noteq> pid \<and>
        (\<forall>x\<in>set (options db). o_id x = v_option_id v \<longrightarrow> o_poll_id x \<noteq> pid)"
  shows "counters_consistent pid db"
proof -
  have K2: "\<forall>v\<in>set (votes db). v_poll_id v = pid \<longleftrightarrow>
        (\<exists>x\<in>set (options db). o_id x = v_option_id v \<and> o_poll_id x = pid)"
    using fresh by blast
  have K3: "\<forall>x\<in>set (options db). o_poll_id x = pid \<longrightarrow> refs (votes db) (o_id x) \<le> vote_count x"
  proof (intro ballI impI)
    fix x assume x: "x \<in> set (options db)" "o_poll_id x = pid"
    with fresh have "\<forall>v\<in>set (votes db). v_option_id v \<noteq> o_id x" by metis
    then have "filter (\<lambda>v. v_option_id v = o_id x) (votes db) = []" by (simp add: filter_empty_conv)
    with zero x show "refs (votes db) (o_id x) \<le> vote_count x" by (simp add: refs_def)
  qed
  have "options_total db pid = 0"
    unfolding options_total_def using zero by (intro sum_list_zero) blast
  with poll t0 have K4: "\<forall>p. get_poll db pid = Some p \<longrightarrow> total_votes p = options_total db pid"
    by simp
  from pk K2 K3 K4 show ?thesis unfolding counters_consistent_def by blast
qed

lemma vote_poll_exists:
  assumes gp: "get_poll db (p_id poll) = Some poll" and ex: "get_poll db pid = Some p"
  shows "\<exists>p'. get_poll (snd (vote H now db poll oid sid)) pid = Some p'"
proof (cases rule: vote_state_cases [of H now db poll oid sid])
  case (same msg)
  with ex show ?thesis by simp
next
  case (new opt)
  from new_K4_poll [OF gp new(5), of pid] ex show ?thesis by simp
next
  case (change opt ev)
  with ex show ?thesis by (simp add: get_poll_def)
qed

lemma cast_vote_poll_exists:
  assumes "get_poll db pid = Some p"
  shows "\<exists>p'. get_poll (cast_vote H db r) pid = Some p'"
proof (cases "get_poll db (req_poll_id r)")
  case None
  with assms show ?thesis by (simp add: cast_vote_def)
next
  case (Some poll)
  then have "get_poll db (p_id poll) = Some poll" by (simp add: get_poll_id)
  from vote_poll_exists [OF this assms] Some show ?thesis by (simp add: cast_vote_def)
qed

lemma cast_votes_poll_exists:
  "get_poll db pid = Some p \<Longrightarrow> \<exists>p'. get_poll (cast_votes H db rs) pid = Some p'"
proof (induction rs arbitrary: db p)
  case Nil
  then show ?case by (simp add: cast_votes_def)
next
  case (Cons r rs)
  from cast_vote_poll_exists [OF Cons.prems] obtain p' where "get_poll (cast_vote H db r) pid = Some p'"
    by blast
  from Cons.IH [OF this] show ?case by (simp add: cast_votes_def)
qed

text \<open>
  C2. Take a poll \<open>pid\<close> at its start: its total is 0, each of its options has counter
  0, and no \<open>Vote\<close> row belongs to it or references one of its options (option
  identifiers being primary keys). After any sequence of vote requests, successful or
  not, for this poll or another, by any voters, the poll is still there and its
  \<open>total_votes\<close> is the sum of the counters of its options.
\<close>

theorem total_votes_equals_sum:
  assumes "distinct (map o_id (options db))"
    and "get_poll db pid = Some p0" and "total_votes p0 = 0"
    and "\<forall>x\<in>set (options db). o_poll_id x = pid \<longrightarrow> vote_count x = 0"
    and "\<forall>v\<in>set (votes db). v_poll_id v \<noteq> pid \<and>
        (\<forall>x\<in>set (options db). o_id x = v_option_id v \<longrightarrow> o_poll_id x \<noteq> pid)"
  shows "\<exists>p. get_poll (cast_votes H db rs) pid = Some p \<and>
             total_votes p = options_total (cast_votes H db rs) pid"
proof -
  have "counters_consistent pid db" using assms by (rule fresh_consistent)
  then have "counters_consistent pid (cast_votes H db rs)" by (rule cast_votes_consistent)
  then have "\<forall>p. get_poll (cast_votes H db rs) pid = Some p \<longrightarrow>
      total_votes p = options_total (cast_votes H db rs) pid"
    by (simp add: counters_consistent_def)
  with cast_votes_poll_exists [OF assms(2), of H rs] show ?thesis by blast
qed

theorem total_votes_equals_sum_witness:
  "(\<exists>p. get_poll (cast_votes example_sha256 example_db example_requests) ''pollAAAA'' = Some p \<and>
        total_votes p = options_total (cast_votes example_sha256 example_db example_requests) ''pollAAAA'') \<and>
   options_total (cast_votes example_sha256 example_db example_requests) ''pollAAAA'' = 2"
proof -
  have "\<exists>p. get_poll (cast_votes example_sha256 example_db example_requests) ''pollAAAA'' = Some p \<and>
        total_votes p = options_total (cast_votes example_sha256 example_db example_requests) ''pollAAAA''"
    by (rule total_votes_equals_sum [where ?p0.0 = example_poll])
      (simp_all add: example_db_def example_poll_def get_poll_def)
  moreover have "options_total (cast_votes example_sha256 example_db example_requests) ''pollAAAA'' = 2"
    by code_simp
  ultimately show ?thesis by simp
qed

lemma example_voted_db_reached:
  "snd (vote example_sha256 5 example_db example_poll 1 ''s1'') = example_voted_db"
  by code_simp

text \<open>
  C3. An active poll that allows vote changes, an option of that poll, a voter with a
  \<open>Vote\<close> row on the poll, option identifiers being primary keys: \<open>vote\<close> returns
  success with the message of a changed vote and the poll's unchanged total; the polls
  table is unchanged; the votes table is the old one with the voter's row reassigned to
  the new option; every option row keeps everything but its counter, the counter of the
  previously chosen option being decremented with a floor at zero and the counter of
  the new option then incremented by one (when both are the same option the floor
  decrement comes first); and the counter of the previously chosen option is not
  negative afterwards.
\<close>

theorem vote_change:
  assumes "is_active poll now" and "allow_vote_change poll"
    and "distinct (map o_id (options db))"
    and "find (option_of_poll option_id (p_id poll)) (options db) = Some opt"
    and "find (vote_of (p_id poll) (hash_voter_token H (generate_voter_token H session_id (p_id poll))))
           (votes db) = Some existing_vote"
  shows "\<exists>db'. vote H now db poll option_id session_id =
       (Returned (True, ''Vote changed successfully'',
          Some \<lparr>voted_option_id = option_id, data_total_votes = total_votes poll,
                results = poll_results db' (p_id poll)\<rparr>), db')
   \<and> polls db' = polls db
   \<and> (\<exists>vs1 vs2. votes db = vs1 @ existing_vote # vs2 \<and>
         votes db' = vs1 @ existing_vote\<lparr>v_option_id := option_id\<rparr> # vs2)
   \<and> options db' =
       map (\<lambda>x. if o_id x = option_id
                 then x\<lparr>vote_count := (if v_option_id existing_vote = option_id
                                         then max 0 (vote_count x - 1) else vote_count x) + 1\<rparr>
                 else if o_id x = v_option_id existing_vote
                      then x\<lparr>vote_count := max 0 (vote_count x - 1)\<rparr> else x) (options db)
   \<and> (\<forall>x\<in>set (options db'). o_id x = v_option_id existing_vote \<longrightarrow> 0 \<le> vote_count x)"
proof -
  let ?vh = "hash_voter_token H (generate_voter_token H session_id (p_id poll))"
  let ?old = "v_option_id existing_vote"
  let ?db' = "snd (vote H now db poll option_id session_id)"
  let ?g = "\<lambda>x. if o_id x = option_id
                 then x\<lparr>vote_count := (if ?old = option_id
                                         then max 0 (vote_count x - 1) else vote_count x) + 1\<rparr>
                 else if o_id x = ?old
                      then x\<lparr>vote_count := max 0 (vote_count x - 1)\<rparr> else x"
  from find_split [OF assms(5)] obtain vs1 vs2 where
    vs: "votes db = vs1 @ existing_vote # vs2" and pv: "vote_of (p_id poll) ?vh existing_vote"
    and nv: "\<forall>y\<in>set vs1. \<not> vote_of (p_id poll) ?vh y" by blast
  have upd: "update_first (vote_of (p_id poll) ?vh) (\<lambda>v. v\<lparr>v_option_id := option_id\<rparr>) (votes db)
     = vs1 @ existing_vote\<lparr>v_option_id := option_id\<rparr> # vs2"
    unfolding vs by (rule update_first_split [OF nv pv])
  have "map (inc_option option_id) (map (dec_option ?old) (options db)) = map ?g (options db)"
    by (simp add: inc_option_def dec_option_def)
  with options_change [OF assms(3,4), of ?old]
  have co: "update_first (option_of_poll option_id (p_id poll)) (\<lambda>x. x\<lparr>vote_count := vote_count x + 1\<rparr>)
           (case find (\<lambda>x. o_id x = ?old) (options db) of None \<Rightarrow> options db
            | Some old_option \<Rightarrow>
                update_first (\<lambda>x. o_id x = ?old) (\<lambda>x. x\<lparr>vote_count := max 0 (vote_count x - 1)\<rparr>) (options db))
         = map ?g (options db)"
    by simp
  have v: "vote H now db poll option_id session_id =
       (Returned (True, ''Vote changed successfully'',
          Some \<lparr>voted_option_id = option_id, data_total_votes = total_votes poll,
                results = poll_results ?db' (p_id poll)\<rparr>), ?db')"
    using assms(1,2,4,5) by (simp add: vote_def Let_def)
  have d: "?db' = db\<lparr>options := map ?g (options db),
                     votes := vs1 @ existing_vote\<lparr>v_option_id := option_id\<rparr> # vs2\<rparr>"
    using assms(1,2,4,5) upd co by (simp add: vote_def Let_def get_option_def)
  have p: "polls ?db' = polls db" by (simp add: d)
  have v2: "votes ?db' = vs1 @ existing_vote\<lparr>v_option_id := option_id\<rparr> # vs2"
    by (simp add: d)
  have w: "\<exists>vs1 vs2. votes db = vs1 @ existing_vote # vs2 \<and>
         votes ?db' = vs1 @ existing_vote\<lparr>v_option_id := option_id\<rparr> # vs2"
    by (intro exI conjI) (rule vs, rule v2)
  have o: "options ?db' = map ?g (options db)" by (simp add: d)
  have f: "\<forall>x\<in>set (options ?db'). o_id x = ?old \<longrightarrow> 0 \<le> vote_count x"
    unfolding o by auto
  from v p w o f show ?thesis by blast
qed

theorem vote_change_witness:
  "vote example_sha256 7 example_voted_db (example_poll\<lparr>total_votes := 1\<rparr>) 2 ''s1'' =
     (Returned (True, ''Vote changed successfully'',
        Some \<lparr>voted_option_id = 2, data_total_votes = 1,
              results = [(1, ''A'', 0, 0), (2, ''B'', 1, 1)]\<rparr>),
      example_voted_db\<lparr>options :=
          [\<lparr>o_id = 1, o_poll_id = ''pollAAAA'', option_text = ''A'', vote_count = 0, display_order = 0\<rparr>,
           \<lparr>o_id = 2, o_poll_id = ''pollAAAA'', option_text = ''B'', vote_count = 1, display_order = 1\<rparr>],
        votes := [\<lparr>v_id = 1, v_poll_id = ''pollAAAA'',
               voter_token_hash = hash_voter_token example_sha256
                 (generate_voter_token example_sha256 ''s1'' ''pollAAAA''),
               v_option_id = 2, voted_at = 5\<rparr>]\<rparr>)"
proof -
  let ?poll = "example_poll\<lparr>total_votes := 1\<rparr>"
  let ?ev = "\<lparr>v_id = 1, v_poll_id = ''pollAAAA'',
               voter_token_hash = hash_voter_token example_sha256
                 (generate_voter_token example_sha256 ''s1'' ''pollAAAA''),
               v_option_id = 1, voted_at = 5\<rparr>"
  have a: "is_active ?poll 7" by (simp add: is_active_def is_expired_def example_poll_def)
  have b: "allow_vote_change ?poll" by (simp add: example_poll_def)
  have c: "distinct (map o_id (options example_voted_db))" by (simp add: example_voted_db_def)
  have d: "find (option_of_poll 2 (p_id ?poll)) (options example_voted_db)
      = Some \<lparr>o_id = 2, o_poll_id = ''pollAAAA'', option_text = ''B'', vote_count = 0, display_order = 1\<rparr>"
    by (simp add: example_voted_db_def example_poll_def option_of_poll_def)
  have e: "find (vote_of (p_id ?poll) (hash_voter_token example_sha256
         (generate_voter_token example_sha256 ''s1'' (p_id ?poll)))) (votes example_voted_db) = Some ?ev"
    by (simp add: example_voted_db_def example_poll_def vote_of_def)
  from vote_change [OF a b c d e] obtain db' where
    v: "vote example_sha256 7 example_voted_db ?poll 2 ''s1'' =
       (Returned (True, ''Vote changed successfully'',
          Some \<lparr>voted_option_id = 2, data_total_votes = total_votes ?poll,
                results = poll_results db' (p_id ?poll)\<rparr>), db')"
    and p: "polls db' = polls example_voted_db"
    and w: "\<exists>vs1 vs2. votes example_voted_db = vs1 @ ?ev # vs2 \<and>
         votes db' = vs1 @ ?ev\<lparr>v_option_id := 2\<rparr> # vs2"
    and o: "options db' =
       map (\<lambda>x. if o_id x = 2
                 then x\<lparr>vote_count := (if v_option_id ?ev = 2
                                         then max 0 (vote_count x - 1) else vote_count x) + 1\<rparr>
                 else if o_id x = v_option_id ?ev
                      then x\<lparr>vote_count := max 0 (vote_count x - 1)\<rparr> else x) (options example_voted_db)"
    by blast
  from w have w': "votes db' = [?ev\<lparr>v_option_id := 2\<rparr>]"
    by (auto simp: example_voted_db_def append_eq_Cons_conv Cons_eq_append_conv)
  from o have o': "options db' =
          [\<lparr>o_id = 1, o_poll_id = ''pollAAAA'', option_text = ''A'', vote_count = 0, display_order = 0\<rparr>,
           \<lparr>o_id = 2, o_poll_id = ''pollAAAA'', option_text = ''B'', vote_count = 1, display_order = 1\<rparr>]"
    by (simp add: example_voted_db_def)
  have db': "db' = example_voted_db\<lparr>options := options db', votes := votes db'\<rparr>"
    using p by (cases db') (simp add: example_voted_db_def)
  have r: "poll_results db' (p_id ?poll) = [(1, ''A'', 0, 0), (2, ''B'', 1, 1)]"
    by (simp add: poll_results_def o' example_poll_def to_dict_def)
  show ?thesis unfolding v r by (subst db') (simp add: o' w' example_poll_def)
qed

text \<open>
  C4. An active poll that does not allow vote changes, an option of that poll, and a
  voter with a \<open>Vote\<close> row on the poll: \<open>vote\<close> returns failure with the message
  "You have already voted" and no data, and the database is the one before the call.
\<close>

theorem vote_already_voted:
  assumes "is_active poll now" and "\<not> allow_vote_change poll"
    and "find (option_of_poll option_id (p_id poll)) (options db) = Some opt"
    and "find (vote_of (p_id poll) (hash_voter_token H (generate_voter_token H session_id (p_id poll))))
           (votes db) = Some existing_vote"
  shows "vote H now db poll option_id session_id = (Returned (False, ''You have already voted'', None), db)"
  using assms by (simp add: vote_def)

theorem vote_already_voted_witness:
  "vote example_sha256 7 example_voted_db (example_poll\<lparr>total_votes := 1, allow_vote_change := False\<rparr>) 2 ''s1''
     = (Returned (False, ''You have already voted'', None), example_voted_db)"
  by (rule vote_already_voted)
    (simp_all add: is_active_def is_expired_def example_poll_def example_voted_db_def
       option_of_poll_def vote_of_def)

text \<open>
  C5. \<open>is_active\<close> is: not closed, and not past \<open>expires_at\<close> at the time of the call.
  For a poll that is not active \<open>vote\<close> returns failure with the message "Poll is no
  longer active" and the database is unchanged; so it is for a poll whose \<open>expires_at\<close>
  is in the past, whatever its \<open>is_closed\<close> flag.
\<close>

theorem vote_inactive:
  "(is_active poll now \<longleftrightarrow> \<not> is_closed poll \<and> \<not> (\<exists>e. expires_at poll = Some e \<and> e < now)) \<and>
   (\<not> is_active poll now \<longrightarrow>
      vote H now db poll option_id session_id = (Returned (False, ''Poll is no longer active'', None), db)) \<and>
   (\<forall>e. expires_at poll = Some e \<and> e < now \<longrightarrow>
      vote H now db poll option_id session_id = (Returned (False, ''Poll is no longer active'', None), db))"
  by (auto simp: vote_def is_active_def is_expired_def split: option.splits)

theorem vote_inactive_witness:
  "\<not> is_active example_poll 101 \<and>
   vote example_sha256 101 example_db example_poll 1 ''s1''
     = (Returned (False, ''Poll is no longer active'', None), example_db) \<and>
   vote example_sha256 101 example_db (example_poll\<lparr>is_closed := True\<rparr>) 1 ''s1''
     = (Returned (False, ''Poll is no longer active'', None), example_db)"
  using vote_inactive [of example_poll 101 example_sha256 example_db 1 "''s1''"]
    vote_inactive [of "example_poll\<lparr>is_closed := True\<rparr>" 101 example_sha256 example_db 1 "''s1''"]
  by (simp add: example_poll_def)

section \<open>Claims about the token engine\<close>

lemma newline_not_poll_id_char: "\<not> poll_id_char (CHR 0x0A)"
  by (simp add: poll_id_char_def char_between_def)

lemma is_valid_poll_id_iff:
  "is_valid_poll_id s \<longleftrightarrow>
     spec_poll_id_format s \<or> (\<exists>b. s = b @ [CHR 0x0A] \<and> spec_poll_id_format b)"
proof
  assume v: "is_valid_poll_id s"
  let ?b = "takeWhile poll_id_char s"
  from v have n: "8 \<le> length ?b" "length ?b \<le> 32"
    and d: "drop (length ?b) s = [] \<or> drop (length ?b) s = [CHR 0x0A]"
    by (simp_all add: is_valid_poll_id_def poll_id_regex_match_def Let_def split: if_splits)
  have s: "s = ?b @ drop (length ?b) s"
    by (metis append_take_drop_id takeWhile_eq_take)
  have all: "list_all poll_id_char ?b" by (simp add: list_all_iff) (meson set_takeWhileD)
  from d show "spec_poll_id_format s \<or> (\<exists>b. s = b @ [CHR 0x0A] \<and> spec_poll_id_format b)"
  proof
    assume "drop (length ?b) s = []"
    with s have "s = ?b" by simp
    with n all have "spec_poll_id_format s" by (simp add: spec_poll_id_format_def)
    then show ?thesis ..
  next
    assume "drop (length ?b) s = [CHR 0x0A]"
    with s have "s = ?b @ [CHR 0x0A]" by simp
    moreover from n all have "spec_poll_id_format ?b" by (simp add: spec_poll_id_format_def)
    ultimately show ?thesis by blast
  qed
next
  assume "spec_poll_id_format s \<or> (\<exists>b. s = b @ [CHR 0x0A] \<and> spec_poll_id_format b)"
  then show "is_valid_poll_id s"
  proof
    assume f: "spec_poll_id_format s"
    then have tw: "takeWhile poll_id_char s = s"
      by (simp add: spec_poll_id_format_def list_all_iff)
    from f have "s \<noteq> []" by (auto simp: spec_poll_id_format_def)
    with f show ?thesis
      unfolding is_valid_poll_id_def poll_id_regex_match_def Let_def tw
      by (simp add: spec_poll_id_format_def)
  next
    assume "\<exists>b. s = b @ [CHR 0x0A] \<and> spec_poll_id_format b"
    then obtain b where s: "s = b @ [CHR 0x0A]" and f: "spec_poll_id_format b" by blast
    from f have tw: "takeWhile poll_id_char (b @ [CHR 0x0A]) = b"
      by (simp add: spec_poll_id_format_def list_all_iff takeWhile_append2 newline_not_poll_id_char)
    from f show ?thesis
      unfolding s is_valid_poll_id_def poll_id_regex_match_def Let_def tw
      by (simp add: spec_poll_id_format_def)
  qed
qed

text \<open>
  C9. \<open>is_valid_poll_id\<close> accepts the nine characters \<open>abcdefgh\<close> and a newline,
  a string that is not of the format of poll identifiers. (By \<open>is_valid_poll_id_iff\<close>
  a format string followed by one newline is the only kind of string it accepts beyond
  the format.)
\<close>

theorem is_valid_poll_id_trailing_newline:
  "is_valid_poll_id (''abcdefgh'' @ [CHR 0x0A]) \<and> \<not> spec_poll_id_format (''abcdefgh'' @ [CHR 0x0A])"
  by (simp add: is_valid_poll_id_def poll_id_regex_match_def spec_poll_id_format_def
      poll_id_char_def char_between_def)









section \<open>Base64 encoding and decoding\<close>

lemma of_char_char_of_small: "n < 256 \<Longrightarrow> (of_char (char_of n) :: nat) = n"
  by simp

lemma b64_index_char:
  assumes "n < 64"
  shows "b64_index (b64_char n) = Some n"
proof -
  consider "n < 26" | "26 \<le> n" "n < 52" | "52 \<le> n" "n < 62" | "n = 62" | "n = 63"
    using assms by linarith
  then show ?thesis
  proof cases
    case 1
    then have "(of_char (b64_char n) :: nat) = 65 + n" by (simp add: b64_char_def)
    with 1 show ?thesis by (simp add: b64_index_def char_between_def)
  next
    case 2
    then have "(of_char (b64_char n) :: nat) = 71 + n" by (simp add: b64_char_def)
    with 2 show ?thesis by (simp add: b64_index_def char_between_def)
  next
    case 3
    then have "(of_char (b64_char n) :: nat) = n - 4" by (simp add: b64_char_def)
    with 3 show ?thesis by (auto simp: b64_index_def char_between_def)
  next
    case 4
    then show ?thesis by (simp add: b64_index_def b64_char_def char_between_def)
  next
    case 5
    then show ?thesis by (simp add: b64_index_def b64_char_def char_between_def)
  qed
qed

lemma b64_char_not_pad:
  assumes "n < 64"
  shows "b64_char n \<noteq> CHR ''=''"
proof
  assume "b64_char n = CHR ''=''"
  then have "b64_index (b64_char n) = None" by (simp add: b64_index_def char_between_def)
  with b64_index_char [OF assms] show False by simp
qed

lemma a2b_pad:
  "a2b_base64 q l pads (CHR ''='' # cs) =
     (if 2 \<le> q \<and> 4 \<le> q + (pads + 1) then Some []
      else a2b_base64 q l (if 2 \<le> q then pads + 1 else pads) cs)"
  by simp

lemma a2b_data:
  assumes "n < 64"
  shows "a2b_base64 0 l pads (b64_char n # cs) = a2b_base64 (Suc 0) n 0 cs"
    "a2b_base64 (Suc 0) l pads (b64_char n # cs)
       = map_option ((#) (char_of (l * 4 + n div 16))) (a2b_base64 2 (n mod 16) 0 cs)"
    "a2b_base64 2 l pads (b64_char n # cs)
       = map_option ((#) (char_of (l * 16 + n div 4))) (a2b_base64 3 (n mod 4) 0 cs)"
    "a2b_base64 3 l pads (b64_char n # cs)
       = map_option ((#) (char_of (l * 64 + n))) (a2b_base64 0 0 0 cs)"
  using assms by (simp_all add: b64_index_char b64_char_not_pad)

lemma byte_arith1:
  fixes a b c :: nat
  assumes "a < 256" "b < 256" "c < 256"
  shows "a div 4 < 64" "a mod 4 * 16 + b div 16 < 64" "b mod 16 * 4 + c div 64 < 64" "c mod 64 < 64"
    "a mod 4 * 16 < 64" "b mod 16 * 4 < 64" "b mod 16 * 4 + 1 < 64"
  using assms by auto

lemma sextet_bounds:
  "(of_char a :: nat) div 4 < 64" "(of_char a :: nat) mod 4 * 16 + of_char b div 16 < 64"
  "(of_char b :: nat) mod 16 * 4 + of_char c div 64 < 64" "(of_char c :: nat) mod 64 < 64"
  "(of_char a :: nat) mod 4 * 16 < 64" "(of_char b :: nat) mod 16 * 4 < 64"
  "(of_char b :: nat) mod 16 * 4 + 1 < 64"
  by (rule byte_arith1 [of "of_char a" "of_char b" "of_char c"]; simp)+

lemma byte_norm:
  "(of_char b :: nat) div 16 div 16 = 0" "(of_char b :: nat) div 64 div 4 = 0"
  "(of_char b :: nat) div 16 mod 16 = of_char b div 16"
  "(of_char b :: nat) div 64 mod 4 = of_char b div 64"
proof -
  have g: "x div 16 < 16 \<and> x div 64 < 4" if "x < 256" for x :: nat
    using that by auto
  from g [of "of_char b"] have "(of_char b :: nat) div 16 < 16" "(of_char b :: nat) div 64 < 4"
    by simp_all
  then show "(of_char b :: nat) div 16 div 16 = 0" "(of_char b :: nat) div 64 div 4 = 0"
    "(of_char b :: nat) div 16 mod 16 = of_char b div 16"
    "(of_char b :: nat) div 64 mod 4 = of_char b div 64"
    by simp_all
qed

lemma decode_group3:
  "a2b_base64 0 l pads
     (b64_char (of_char a div 4) # b64_char ((of_char a mod 4) * 16 + of_char b div 16) #
      b64_char ((of_char b mod 16) * 4 + of_char c div 64) # b64_char (of_char c mod 64) # cs)
   = map_option (\<lambda>r. a # b # c # r) (a2b_base64 0 0 0 cs)"
proof -
  have b: "(of_char b :: nat) < 256" and c: "(of_char c :: nat) < 256" by simp_all
  show ?thesis
    by (simp add: a2b_data sextet_bounds byte_norm option.map_comp o_def del: a2b_base64.simps)
qed

lemma decode_group2:
  assumes "v = (of_char b mod 16) * 4 \<or> v = (of_char b mod 16) * 4 + 1"
  shows "a2b_base64 0 l pads
     [b64_char (of_char a div 4), b64_char ((of_char a mod 4) * 16 + of_char b div 16),
      b64_char v, CHR ''='']
   = Some [a, b]"
proof -
  have b: "(of_char b :: nat) < 256" by simp
  from assms have v: "v < 64" "v div 4 = of_char b mod 16"
    using sextet_bounds(6,7) [of b] by auto
  show ?thesis
    by (simp add: a2b_data sextet_bounds v byte_norm a2b_pad del: a2b_base64.simps)
qed

lemma decode_group1:
  "a2b_base64 0 l pads
     [b64_char (of_char a div 4), b64_char ((of_char a mod 4) * 16), CHR ''='', CHR ''='']
   = Some [a]"
  by (simp add: a2b_data sextet_bounds byte_norm a2b_pad del: a2b_base64.simps)

lemma a2b_b64encode: "a2b_base64 0 l pads (b64encode bs @ []) = Some bs"
proof (induction bs arbitrary: l pads rule: b64encode.induct)
  case 1
  then show ?case by simp
next
  case (2 a)
  show ?case using decode_group1 [of l pads a] by simp
next
  case (3 a b)
  show ?case using decode_group2 [of "(of_char b mod 16) * 4" b l pads a] by simp
next
  case (4 a b c rest)
  from 4 [of 0 0] show ?case by (simp add: decode_group3 del: a2b_base64.simps)
qed

lemma urlsafe_b64_roundtrip: "urlsafe_b64decode (urlsafe_b64encode bs) = Some bs"
  using a2b_b64encode [of 0 0 bs] by (simp add: urlsafe_b64decode_def urlsafe_b64encode_def)

lemma urlsafe_b64encode_nonempty: "bs \<noteq> [] \<Longrightarrow> urlsafe_b64encode bs \<noteq> []"
  by (cases bs rule: b64encode.cases) (simp_all add: urlsafe_b64encode_def)

end
